theory Spec2Isabelle
  imports Main "HOL-Library.Word"
begin

section \<open>Values of the Go program\<close>

text \<open>
  The package \<^verbatim>\<open>cache\<close> keeps fixed-length slot tables. This theory embeds its
  newest source file (the one declaring \<^verbatim>\<open>Bytes\<close> and \<^verbatim>\<open>Interface\<close>) function
  by function, for a sequential caller: every mutex is taken and released inside one call,
  and \<^verbatim>\<open>atomic.AddInt64\<close>/\<^verbatim>\<open>atomic.LoadInt64\<close> are an addition and a read.

  \<^item> \<^verbatim>\<open>int64\<close> (counter, budget, timestamps, declared sizes) is \<open>64 word\<close>: \<open>+\<close>, \<open>-\<close>
    and \<open>*\<close> wrap as Go's do, and Go's \<^verbatim>\<open><\<close> and \<^verbatim>\<open>></\<close> on \<^verbatim>\<open>int64\<close> are the signed
    comparison \<open><s\<close>.
  \<^item> \<^verbatim>\<open>int\<close> (slot index, configured size) is \<open>int\<close>: the code only compares it and
    indexes with it, so every value of the machine type is covered and none wraps.
  \<^item> A \<^verbatim>\<open>[]byte\<close> is \<open>None\<close> for \<^verbatim>\<open>nil\<close> or \<open>Some bs\<close>; \<^verbatim>\<open>len\<close> of \<^verbatim>\<open>nil\<close> is 0.
  \<^item> \<^verbatim>\<open>time.Now().Unix()\<close> is an input: each function that reads the clock takes the
    reading as its first argument.
  \<^item> A run-time panic is \<open>Inl\<close> of a \<open>panic\<close>.
  \<^item> A payload is a value: what a caller later writes into a slice it has passed in or
    got back is not modelled.
  \<^item> The parameter \<^verbatim>\<open>id\<close> of the source is \<open>idx\<close> here, and \<^verbatim>\<open>size\<close> is \<open>sz\<close>.
\<close>

type_synonym int64 = "64 word"
type_synonym byte = "8 word"
type_synonym byte_slice = "byte list option"

datatype panic = IndexOutOfRange | MakeSliceLenOutOfRange | NilDereference

definition len_bytes :: "byte_slice \<Rightarrow> nat" where
  "len_bytes p = (case p of None \<Rightarrow> 0 | Some bs \<Rightarrow> length bs)"

text \<open>
  \<^verbatim>\<open>int64(len(p))\<close>: a length is below \<open>2^63\<close>, so the conversion is exact.
\<close>

definition len64 :: "byte_slice \<Rightarrow> int64" where
  "len64 p = word_of_nat (len_bytes p)"

text \<open>
  \<^verbatim>\<open>vs[idx]\<close> on a slice of slots: Go panics when \<open>idx\<close> is negative or not below the
  length.
\<close>

definition in_bounds :: "'a list \<Rightarrow> int \<Rightarrow> bool" where
  "in_bounds vs idx \<longleftrightarrow> 0 \<le> idx \<and> idx < int (length vs)"

definition index :: "'a list \<Rightarrow> int \<Rightarrow> panic + 'a" where
  "index vs idx = (if in_bounds vs idx then Inr (vs ! nat idx) else Inl IndexOutOfRange)"

section \<open>The byte cache\<close>

record entryBytes =
  lastAccess_B :: int64
  data_B :: byte_slice

record Bytes =
  vals_B :: "entryBytes option list"
  mem_B :: int64
  max_B :: int64
  size_B :: int

text \<open>
  \<^verbatim>\<open>make([]T, n)\<close> runs the run-time's \<^verbatim>\<open>makeslice\<close>, which panics with
  \<^verbatim>\<open>makeslice: len out of range\<close> when \<open>n\<close> is negative or when \<open>n\<close> elements need more
  than \<^verbatim>\<open>maxAlloc\<close> bytes. Both tables hold pointers, of 8 bytes each, and \<^verbatim>\<open>maxAlloc\<close>
  is \<open>2^48\<close> on a 64-bit platform, so a length above \<open>2^45\<close> panics. A length that passes
  the check and still exhausts the machine's memory ends the process; that is outside
  the model.
\<close>

definition maxAlloc :: int where
  "maxAlloc = 2 ^ 48"

definition ptrSize :: int where
  "ptrSize = 8"

definition make_len_ok :: "int \<Rightarrow> bool" where
  "make_len_ok n \<longleftrightarrow> 0 \<le> n \<and> n * ptrSize \<le> maxAlloc"

text \<open>
  \<^verbatim>\<open>&Bytes{vals: make([]*entryBytes, size), size: size, max: megabytes * 1048576}\<close>.
\<close>

definition NewBytes_struct :: "int \<Rightarrow> int64 \<Rightarrow> panic + Bytes" where
  "NewBytes_struct sz megabytes =
     (if \<not> make_len_ok sz then Inl MakeSliceLenOutOfRange
      else Inr \<lparr>vals_B = replicate (nat sz) None, mem_B = 0,
                max_B = megabytes * 1048576, size_B = sz\<rparr>)"

text \<open>
  \<^verbatim>\<open>Get\<close> returns the pair of results and the cache, whose entry has the new
  \<^verbatim>\<open>lastAccess\<close>. The only guard is \<^verbatim>\<open>idx >= c.size\<close>.
\<close>

definition Bytes_Get :: "int64 \<Rightarrow> Bytes \<Rightarrow> int \<Rightarrow> panic + ((byte_slice \<times> bool) \<times> Bytes)" where
  "Bytes_Get now c idx =
     (if idx \<ge> size_B c then Inr ((None, False), c)
      else case index (vals_B c) idx of
             Inl e \<Rightarrow> Inl e
           | Inr None \<Rightarrow> Inr ((None, False), c)
           | Inr (Some item) \<Rightarrow>
               Inr ((data_B item, True),
                    c\<lparr>vals_B := (vals_B c)[nat idx := Some (item\<lparr>lastAccess_B := now\<rparr>)]\<rparr>))"

definition Bytes_Store :: "int64 \<Rightarrow> Bytes \<Rightarrow> int \<Rightarrow> byte_slice \<Rightarrow> panic + Bytes" where
  "Bytes_Store now c idx p =
     (if idx \<ge> size_B c then Inr c
      else case index (vals_B c) idx of
             Inl e \<Rightarrow> Inl e
           | Inr None \<Rightarrow>
               Inr (c\<lparr>vals_B := (vals_B c)[nat idx := Some \<lparr>lastAccess_B = now, data_B = p\<rparr>],
                      mem_B := mem_B c + len64 p\<rparr>)
           | Inr (Some item) \<Rightarrow> Inr c)"

text \<open>
  In \<^verbatim>\<open>Replace\<close>, \<^verbatim>\<open>memdif := len(p) - len(item.data)\<close> is an \<^verbatim>\<open>int\<close> between two
  lengths, so it cannot overflow; \<^verbatim>\<open>int64(memdif)\<close> is that integer as a word.
\<close>

definition Bytes_Replace :: "int64 \<Rightarrow> Bytes \<Rightarrow> int \<Rightarrow> byte_slice \<Rightarrow> panic + Bytes" where
  "Bytes_Replace tim c idx p =
     (if idx \<ge> size_B c then Inr c
      else case index (vals_B c) idx of
             Inl e \<Rightarrow> Inl e
           | Inr None \<Rightarrow>
               Inr (c\<lparr>vals_B := (vals_B c)[nat idx := Some \<lparr>lastAccess_B = tim, data_B = p\<rparr>],
                      mem_B := mem_B c + len64 p\<rparr>)
           | Inr (Some item) \<Rightarrow>
               (let memdif = int (len_bytes p) - int (len_bytes (data_B item))
                in Inr (c\<lparr>vals_B := (vals_B c)[nat idx := Some (item\<lparr>data_B := p, lastAccess_B := tim\<rparr>)],
                         mem_B := mem_B c + word_of_int memdif\<rparr>)))"

text \<open>
  \<^verbatim>\<open>Remove\<close> is \<^verbatim>\<open>c.vals[idx] = false\<close> after the guard. \<^verbatim>\<open>false\<close> is not a value of
  the slot's pointer type; it is read here as the empty slot \<^verbatim>\<open>nil\<close>, the only reading
  under which the statement deletes the entry as its comment says. The statement does not
  touch \<^verbatim>\<open>c.mem\<close>.
\<close>

definition Bytes_Remove :: "Bytes \<Rightarrow> int \<Rightarrow> panic + Bytes" where
  "Bytes_Remove c idx =
     (if idx \<ge> size_B c then Inr c
      else if in_bounds (vals_B c) idx then Inr (c\<lparr>vals_B := (vals_B c)[nat idx := None]\<rparr>)
      else Inl IndexOutOfRange)"

definition Bytes_Close :: "Bytes \<Rightarrow> Bytes" where
  "Bytes_Close c = c\<lparr>size_B := 0, vals_B := [], mem_B := 0, max_B := 0\<rparr>"

text \<open>
  \<^verbatim>\<open>for i, item := range c.vals\<close>: the slice is read once, the slots are visited from
  index 0 upwards, and iteration \<open>i\<close> writes slot \<open>i\<close> only. The loop carries the index,
  the slots still to visit and the cache.
\<close>

fun Bytes_Purge_loop :: "int64 \<Rightarrow> nat \<Rightarrow> entryBytes option list \<Rightarrow> Bytes \<Rightarrow> Bytes" where
  "Bytes_Purge_loop olderThan i [] c = c"
| "Bytes_Purge_loop olderThan i (None # rest) c = Bytes_Purge_loop olderThan (Suc i) rest c"
| "Bytes_Purge_loop olderThan i (Some item # rest) c =
     Bytes_Purge_loop olderThan (Suc i) rest
       (if lastAccess_B item <s olderThan
        then c\<lparr>mem_B := mem_B c + (0 - len64 (data_B item)), vals_B := (vals_B c)[i := None]\<rparr>
        else c)"

definition Bytes_Purge :: "int64 \<Rightarrow> Bytes \<Rightarrow> Bytes" where
  "Bytes_Purge olderThan c = Bytes_Purge_loop olderThan 0 (vals_B c) c"

text \<open>
  Every cache the package builds keeps \<^verbatim>\<open>len(c.vals) == c.size\<close>: the constructor and
  \<^verbatim>\<open>Close\<close> set both, and no other function changes either.
\<close>

definition wf_B :: "Bytes \<Rightarrow> bool" where
  "wf_B c \<longleftrightarrow> int (length (vals_B c)) = size_B c"

subsection \<open>What a purge does to one slot\<close>

definition stale_B :: "int64 \<Rightarrow> entryBytes option \<Rightarrow> bool" where
  "stale_B t slot = (case slot of None \<Rightarrow> False | Some item \<Rightarrow> lastAccess_B item <s t)"

definition slot_size_B :: "entryBytes option \<Rightarrow> int64" where
  "slot_size_B slot = (case slot of None \<Rightarrow> 0 | Some item \<Rightarrow> len64 (data_B item))"

definition purged_slot_B :: "int64 \<Rightarrow> entryBytes option \<Rightarrow> entryBytes option" where
  "purged_slot_B t slot = (if stale_B t slot then None else slot)"

definition live_size_B :: "entryBytes option list \<Rightarrow> int64" where
  "live_size_B vs = sum_list (map slot_size_B vs)"

section \<open>The cache of typed values\<close>

text \<open>
  An \<^verbatim>\<open>interface{}\<close> value is \<^verbatim>\<open>nil\<close>, a byte slice (what \<^verbatim>\<open>Replace\<close> is declared
  to take) or a value of some other type \<open>'a\<close>. The entry carries the size its creator
  declared.
\<close>

datatype 'a iface = INil | IBytes byte_slice | IValue 'a

record 'a entryInterface =
  lastAccess_I :: int64
  data_I :: "'a iface"
  entry_size_I :: int64

record 'a Interface =
  vals_I :: "'a entryInterface option list"
  mem_I :: int64
  max_I :: int64
  size_I :: int

text \<open>
  \<^verbatim>\<open>&Interface{vals: make([]*entryInterface, size), size: size, max: megabytes * 1024}\<close>.
\<close>

definition New_struct :: "int \<Rightarrow> int64 \<Rightarrow> panic + 'a Interface" where
  "New_struct sz megabytes =
     (if \<not> make_len_ok sz then Inl MakeSliceLenOutOfRange
      else Inr \<lparr>vals_I = replicate (nat sz) None, mem_I = 0,
                max_I = megabytes * 1024, size_I = sz\<rparr>)"

definition Interface_Get ::
  "int64 \<Rightarrow> 'a Interface \<Rightarrow> int \<Rightarrow> panic + (('a iface \<times> bool) \<times> 'a Interface)" where
  "Interface_Get now c idx =
     (if idx \<ge> size_I c then Inr ((INil, False), c)
      else case index (vals_I c) idx of
             Inl e \<Rightarrow> Inl e
           | Inr None \<Rightarrow> Inr ((INil, False), c)
           | Inr (Some item) \<Rightarrow>
               Inr ((data_I item, True),
                    c\<lparr>vals_I := (vals_I c)[nat idx := Some (item\<lparr>lastAccess_I := now\<rparr>)]\<rparr>))"

definition Interface_Store ::
  "int64 \<Rightarrow> 'a Interface \<Rightarrow> int \<Rightarrow> 'a iface \<Rightarrow> int64 \<Rightarrow> panic + 'a Interface" where
  "Interface_Store now c idx p sz =
     (if idx \<ge> size_I c then Inr c
      else case index (vals_I c) idx of
             Inl e \<Rightarrow> Inl e
           | Inr None \<Rightarrow>
               Inr (c\<lparr>vals_I := (vals_I c)[nat idx :=
                          Some \<lparr>lastAccess_I = now, data_I = p, entry_size_I = sz\<rparr>],
                      mem_I := mem_I c + sz\<rparr>)
           | Inr (Some item) \<Rightarrow> Inr c)"

text \<open>
  \<^verbatim>\<open>Replace\<close> on an occupied slot runs \<^verbatim>\<open>size -= item.size\<close>, stores the payload and
  the time, and adds the difference to the counter. It never assigns \<^verbatim>\<open>item.size\<close>.
\<close>

definition Interface_Replace ::
  "int64 \<Rightarrow> 'a Interface \<Rightarrow> int \<Rightarrow> byte_slice \<Rightarrow> int64 \<Rightarrow> panic + 'a Interface" where
  "Interface_Replace tim c idx p sz =
     (if idx \<ge> size_I c then Inr c
      else case index (vals_I c) idx of
             Inl e \<Rightarrow> Inl e
           | Inr None \<Rightarrow>
               Inr (c\<lparr>vals_I := (vals_I c)[nat idx :=
                          Some \<lparr>lastAccess_I = tim, data_I = IBytes p, entry_size_I = sz\<rparr>],
                      mem_I := mem_I c + sz\<rparr>)
           | Inr (Some item) \<Rightarrow>
               (let sz' = sz - entry_size_I item
                in Inr (c\<lparr>vals_I := (vals_I c)[nat idx :=
                             Some (item\<lparr>data_I := IBytes p, lastAccess_I := tim\<rparr>)],
                         mem_I := mem_I c + sz'\<rparr>)))"

definition Interface_Remove :: "'a Interface \<Rightarrow> int \<Rightarrow> panic + 'a Interface" where
  "Interface_Remove c idx =
     (if idx \<ge> size_I c then Inr c
      else if in_bounds (vals_I c) idx then Inr (c\<lparr>vals_I := (vals_I c)[nat idx := None]\<rparr>)
      else Inl IndexOutOfRange)"

definition Interface_Close :: "'a Interface \<Rightarrow> 'a Interface" where
  "Interface_Close c = c\<lparr>size_I := 0, vals_I := [], mem_I := 0, max_I := 0\<rparr>"

fun Interface_Purge_loop ::
  "int64 \<Rightarrow> nat \<Rightarrow> 'a entryInterface option list \<Rightarrow> 'a Interface \<Rightarrow> 'a Interface" where
  "Interface_Purge_loop olderThan i [] c = c"
| "Interface_Purge_loop olderThan i (None # rest) c =
     Interface_Purge_loop olderThan (Suc i) rest c"
| "Interface_Purge_loop olderThan i (Some item # rest) c =
     Interface_Purge_loop olderThan (Suc i) rest
       (if lastAccess_I item <s olderThan
        then c\<lparr>mem_I := mem_I c + (0 - entry_size_I item), vals_I := (vals_I c)[i := None]\<rparr>
        else c)"

definition Interface_Purge :: "int64 \<Rightarrow> 'a Interface \<Rightarrow> 'a Interface" where
  "Interface_Purge olderThan c = Interface_Purge_loop olderThan 0 (vals_I c) c"

definition wf_I :: "'a Interface \<Rightarrow> bool" where
  "wf_I c \<longleftrightarrow> int (length (vals_I c)) = size_I c"

definition stale_I :: "int64 \<Rightarrow> 'a entryInterface option \<Rightarrow> bool" where
  "stale_I t slot = (case slot of None \<Rightarrow> False | Some item \<Rightarrow> lastAccess_I item <s t)"

definition slot_size_I :: "'a entryInterface option \<Rightarrow> int64" where
  "slot_size_I slot = (case slot of None \<Rightarrow> 0 | Some item \<Rightarrow> entry_size_I item)"

definition purged_slot_I :: "int64 \<Rightarrow> 'a entryInterface option \<Rightarrow> 'a entryInterface option" where
  "purged_slot_I t slot = (if stale_I t slot then None else slot)"

definition live_size_I :: "'a entryInterface option list \<Rightarrow> int64" where
  "live_size_I vs = sum_list (map slot_size_I vs)"

section \<open>The registry and the sweeper\<close>

text \<open>
  \<^verbatim>\<open>caches1\<close> and \<^verbatim>\<open>caches2\<close> hold pointers. The store keeps the allocated caches in
  two lists; a pointer is a position in its list, and the constructor allocates at the end.
\<close>

record 'a world =
  heap1 :: "Bytes list"
  heap2 :: "'a Interface list"
  caches1 :: "nat list"
  caches2 :: "nat list"

definition NewBytes :: "'a world \<Rightarrow> int \<Rightarrow> int64 \<Rightarrow> panic + (nat \<times> 'a world)" where
  "NewBytes w sz megabytes =
     (case NewBytes_struct sz megabytes of
        Inl e \<Rightarrow> Inl e
      | Inr c \<Rightarrow>
          (let a = length (heap1 w)
           in Inr (a, w\<lparr>heap1 := heap1 w @ [c], caches1 := caches1 w @ [a]\<rparr>)))"

definition New :: "'a world \<Rightarrow> int \<Rightarrow> int64 \<Rightarrow> panic + (nat \<times> 'a world)" where
  "New w sz megabytes =
     (case New_struct sz megabytes of
        Inl e \<Rightarrow> Inl e
      | Inr c \<Rightarrow>
          (let a = length (heap2 w)
           in Inr (a, w\<lparr>heap2 := heap2 w @ [c], caches2 := caches2 w @ [a]\<rparr>)))"

definition deref :: "'c list \<Rightarrow> nat \<Rightarrow> panic + 'c" where
  "deref h a = (if a < length h then Inr (h ! a) else Inl NilDereference)"

text \<open>
  The body of \<^verbatim>\<open>for _, c := range newCachesSlice1\<close> for one cache. Each stage reads the
  clock again: \<open>now k\<close> is the reading of stage \<open>k\<close>. \<^verbatim>\<open>c.mem > c.max\<close> is
  \<open>max <s mem\<close>; every \<^verbatim>\<open>else\<close> branch is \<^verbatim>\<open>continue\<close>.
\<close>

definition cleaner_body_B :: "(nat \<Rightarrow> int64) \<Rightarrow> Bytes \<Rightarrow> Bytes" where
  "cleaner_body_B now c =
     (if max_B c <s mem_B c then
        (let c1 = Bytes_Purge (now 0 - 432000) c in
         if max_B c1 <s mem_B c1 then
           (let c2 = Bytes_Purge (now 1 - 86400) c1 in
            if max_B c2 <s mem_B c2 then
              (let c3 = Bytes_Purge (now 2 - 3600) c2 in
               if max_B c3 <s mem_B c3 then
                 (let c4 = Bytes_Purge (now 3 - 600) c3 in
                  if max_B c4 <s mem_B c4 then Bytes_Purge (now 4 + 3600) c4 else c4)
               else c3)
            else c2)
         else c1)
      else c)"

definition cleaner_body_I :: "(nat \<Rightarrow> int64) \<Rightarrow> 'a Interface \<Rightarrow> 'a Interface" where
  "cleaner_body_I now c =
     (if max_I c <s mem_I c then
        (let c1 = Interface_Purge (now 0 - 432000) c in
         if max_I c1 <s mem_I c1 then
           (let c2 = Interface_Purge (now 1 - 86400) c1 in
            if max_I c2 <s mem_I c2 then
              (let c3 = Interface_Purge (now 2 - 3600) c2 in
               if max_I c3 <s mem_I c3 then
                 (let c4 = Interface_Purge (now 3 - 600) c3 in
                  if max_I c4 <s mem_I c4 then Interface_Purge (now 4 + 3600) c4 else c4)
               else c3)
            else c2)
         else c1)
      else c)"

text \<open>
  The two \<^verbatim>\<open>range\<close> loops of one tick, over the snapshot of the registry. \<open>clock k\<close>
  gives the readings for the \<open>k\<close>-th cache of the snapshot.
\<close>

fun cleaner_range_B :: "(nat \<Rightarrow> nat \<Rightarrow> int64) \<Rightarrow> nat \<Rightarrow> nat list \<Rightarrow> Bytes list \<Rightarrow> panic + Bytes list" where
  "cleaner_range_B clock k [] h = Inr h"
| "cleaner_range_B clock k (a # snapshot) h =
     (case deref h a of
        Inl e \<Rightarrow> Inl e
      | Inr c \<Rightarrow> cleaner_range_B clock (Suc k) snapshot (h[a := cleaner_body_B (clock k) c]))"

fun cleaner_range_I ::
  "(nat \<Rightarrow> nat \<Rightarrow> int64) \<Rightarrow> nat \<Rightarrow> nat list \<Rightarrow> 'a Interface list \<Rightarrow> panic + 'a Interface list" where
  "cleaner_range_I clock k [] h = Inr h"
| "cleaner_range_I clock k (a # snapshot) h =
     (case deref h a of
        Inl e \<Rightarrow> Inl e
      | Inr c \<Rightarrow> cleaner_range_I clock (Suc k) snapshot (h[a := cleaner_body_I (clock k) c]))"

text \<open>One pass of the sweeper's endless loop, after its sleep.\<close>

definition cleaner_tick ::
  "(nat \<Rightarrow> nat \<Rightarrow> int64) \<Rightarrow> (nat \<Rightarrow> nat \<Rightarrow> int64) \<Rightarrow> 'a world \<Rightarrow> panic + 'a world" where
  "cleaner_tick clock1 clock2 w =
     (case cleaner_range_B clock1 0 (caches1 w) (heap1 w) of
        Inl e \<Rightarrow> Inl e
      | Inr h1 \<Rightarrow>
          (case cleaner_range_I clock2 0 (caches2 w) (heap2 w) of
             Inl e \<Rightarrow> Inl e
           | Inr h2 \<Rightarrow> Inr (w\<lparr>heap1 := h1, heap2 := h2\<rparr>)))"

text \<open>
  The registry of a world built by the constructors lists every allocated cache once, in
  order of construction.
\<close>

definition wf_world :: "'a world \<Rightarrow> bool" where
  "wf_world w \<longleftrightarrow> caches1 w = [0..<length (heap1 w)] \<and> caches2 w = [0..<length (heap2 w)]"

definition empty_world :: "'a world" where
  "empty_world = \<lparr>heap1 = [], heap2 = [], caches1 = [], caches2 = []\<rparr>"

section \<open>The older single-cache file\<close>

text \<open>
  \<^verbatim>\<open>cache.go\<close> is an earlier version with one kind of cache, \<^verbatim>\<open>cache\<close>, without the
  \<^verbatim>\<open>size\<close> field. Its \<^verbatim>\<open>entry\<close> has the fields of \<^verbatim>\<open>entryBytes\<close>, which stands for
  it here. Its \<^verbatim>\<open>Purge\<close> is the same loop, and its sweeper has four stages: it starts at
  one day. The third file repeats it with the type named \<^verbatim>\<open>bytes\<close>.
\<close>

record cache =
  vals_L :: "entryBytes option list"
  mem_L :: int64
  max_L :: int64

fun legacy_Purge_loop :: "int64 \<Rightarrow> nat \<Rightarrow> entryBytes option list \<Rightarrow> cache \<Rightarrow> cache" where
  "legacy_Purge_loop olderThan i [] c = c"
| "legacy_Purge_loop olderThan i (None # rest) c = legacy_Purge_loop olderThan (Suc i) rest c"
| "legacy_Purge_loop olderThan i (Some item # rest) c =
     legacy_Purge_loop olderThan (Suc i) rest
       (if lastAccess_B item <s olderThan
        then c\<lparr>mem_L := mem_L c + (0 - len64 (data_B item)), vals_L := (vals_L c)[i := None]\<rparr>
        else c)"

definition legacy_Purge :: "int64 \<Rightarrow> cache \<Rightarrow> cache" where
  "legacy_Purge olderThan c = legacy_Purge_loop olderThan 0 (vals_L c) c"

definition legacy_cleaner_body :: "(nat \<Rightarrow> int64) \<Rightarrow> cache \<Rightarrow> cache" where
  "legacy_cleaner_body now c =
     (if max_L c <s mem_L c then
        (let c1 = legacy_Purge (now 0 - 86400) c in
         if max_L c1 <s mem_L c1 then
           (let c2 = legacy_Purge (now 1 - 3600) c1 in
            if max_L c2 <s mem_L c2 then
              (let c3 = legacy_Purge (now 2 - 600) c2 in
               if max_L c3 <s mem_L c3 then legacy_Purge (now 3 + 3600) c3 else c3)
            else c2)
         else c1)
      else c)"

section \<open>The sweep as the specification words it\<close>

text \<open>
  These definitions follow the specification, not the code: an entry's idle time at a
  clock reading is the number of seconds since its last access; a stage evicts the
  entries that are idle enough and takes their sizes off the counter; the stages run in
  order, each only while the counter is above the budget. \<open>idle_enough k a\<close> says whether
  an entry idle for \<open>a\<close> seconds qualifies for the stage of \<open>k\<close> seconds; the last stage
  takes every entry last accessed before one hour after the reading.
\<close>

definition idle :: "int64 \<Rightarrow> int64 \<Rightarrow> int" where
  "idle now la = sint now - sint la"

definition aged_B :: "(int \<Rightarrow> bool) \<Rightarrow> int64 \<Rightarrow> entryBytes option \<Rightarrow> bool" where
  "aged_B old now slot =
     (case slot of None \<Rightarrow> False | Some item \<Rightarrow> old (idle now (lastAccess_B item)))"

definition spec_evict_B :: "(int \<Rightarrow> bool) \<Rightarrow> int64 \<Rightarrow> Bytes \<Rightarrow> Bytes" where
  "spec_evict_B old now c =
     c\<lparr>vals_B := map (\<lambda>slot. if aged_B old now slot then None else slot) (vals_B c),
       mem_B := mem_B c - sum_list (map slot_size_B (filter (aged_B old now) (vals_B c)))\<rparr>"

fun spec_stages_B :: "((int \<Rightarrow> bool) \<times> int64) list \<Rightarrow> Bytes \<Rightarrow> Bytes" where
  "spec_stages_B [] c = c"
| "spec_stages_B ((old, now) # stages) c =
     (if mem_B c \<le>s max_B c then c else spec_stages_B stages (spec_evict_B old now c))"

definition spec_sweep_B :: "(int \<Rightarrow> int \<Rightarrow> bool) \<Rightarrow> (nat \<Rightarrow> int64) \<Rightarrow> Bytes \<Rightarrow> Bytes" where
  "spec_sweep_B idle_enough now c =
     spec_stages_B
       [(idle_enough 432000, now 0), (idle_enough 86400, now 1), (idle_enough 3600, now 2),
        (idle_enough 600, now 3), (\<lambda>a. - 3600 < a, now 4)] c"

definition aged_I :: "(int \<Rightarrow> bool) \<Rightarrow> int64 \<Rightarrow> 'a entryInterface option \<Rightarrow> bool" where
  "aged_I old now slot =
     (case slot of None \<Rightarrow> False | Some item \<Rightarrow> old (idle now (lastAccess_I item)))"

definition spec_evict_I :: "(int \<Rightarrow> bool) \<Rightarrow> int64 \<Rightarrow> 'a Interface \<Rightarrow> 'a Interface" where
  "spec_evict_I old now c =
     c\<lparr>vals_I := map (\<lambda>slot. if aged_I old now slot then None else slot) (vals_I c),
       mem_I := mem_I c - sum_list (map slot_size_I (filter (aged_I old now) (vals_I c)))\<rparr>"

fun spec_stages_I :: "((int \<Rightarrow> bool) \<times> int64) list \<Rightarrow> 'a Interface \<Rightarrow> 'a Interface" where
  "spec_stages_I [] c = c"
| "spec_stages_I ((old, now) # stages) c =
     (if mem_I c \<le>s max_I c then c else spec_stages_I stages (spec_evict_I old now c))"

definition spec_sweep_I ::
  "(int \<Rightarrow> int \<Rightarrow> bool) \<Rightarrow> (nat \<Rightarrow> int64) \<Rightarrow> 'a Interface \<Rightarrow> 'a Interface" where
  "spec_sweep_I idle_enough now c =
     spec_stages_I
       [(idle_enough 432000, now 0), (idle_enough 86400, now 1), (idle_enough 3600, now 2),
        (idle_enough 600, now 3), (\<lambda>a. - 3600 < a, now 4)] c"

definition spec_evict_L :: "(int \<Rightarrow> bool) \<Rightarrow> int64 \<Rightarrow> cache \<Rightarrow> cache" where
  "spec_evict_L old now c =
     c\<lparr>vals_L := map (\<lambda>slot. if aged_B old now slot then None else slot) (vals_L c),
       mem_L := mem_L c - sum_list (map slot_size_B (filter (aged_B old now) (vals_L c)))\<rparr>"

fun spec_stages_L :: "((int \<Rightarrow> bool) \<times> int64) list \<Rightarrow> cache \<Rightarrow> cache" where
  "spec_stages_L [] c = c"
| "spec_stages_L ((old, now) # stages) c =
     (if mem_L c \<le>s max_L c then c else spec_stages_L stages (spec_evict_L old now c))"

text \<open>
  A clock reading for which none of the five thresholds wraps around: at least five days
  above the least \<^verbatim>\<open>int64\<close> and more than an hour below the greatest.
\<close>

definition clock_ok :: "int64 \<Rightarrow> bool" where
  "clock_ok t \<longleftrightarrow> - (2 ^ 63) + 432000 \<le> sint t \<and> sint t + 3600 < 2 ^ 63"

section \<open>The counter against the live entries\<close>

definition counter_ok_B :: "Bytes \<Rightarrow> bool" where
  "counter_ok_B c \<longleftrightarrow> mem_B c = live_size_B (vals_B c)"

text \<open>A sequential run: the operations of the byte cache, applied in order.\<close>

datatype op_B =
    Store_B int64 int byte_slice
  | Replace_B int64 int byte_slice
  | Remove_B int
  | Purge_B int64

fun apply_B :: "Bytes \<Rightarrow> op_B \<Rightarrow> panic + Bytes" where
  "apply_B c (Store_B now idx p) = Bytes_Store now c idx p"
| "apply_B c (Replace_B tim idx p) = Bytes_Replace tim c idx p"
| "apply_B c (Remove_B idx) = Bytes_Remove c idx"
| "apply_B c (Purge_B olderThan) = Inr (Bytes_Purge olderThan c)"

fun run_B :: "Bytes \<Rightarrow> op_B list \<Rightarrow> panic + Bytes" where
  "run_B c [] = Inr c"
| "run_B c (x # xs) = (case apply_B c x of Inl e \<Rightarrow> Inl e | Inr c' \<Rightarrow> run_B c' xs)"

fun in_range_B :: "Bytes \<Rightarrow> op_B \<Rightarrow> bool" where
  "in_range_B c (Store_B now idx p) \<longleftrightarrow> 0 \<le> idx \<and> idx < size_B c"
| "in_range_B c (Replace_B tim idx p) \<longleftrightarrow> 0 \<le> idx \<and> idx < size_B c"
| "in_range_B c (Remove_B idx) \<longleftrightarrow> 0 \<le> idx \<and> idx < size_B c"
| "in_range_B c (Purge_B olderThan) \<longleftrightarrow> True"

fun has_Remove :: "op_B list \<Rightarrow> bool" where
  "has_Remove [] = False"
| "has_Remove (Remove_B idx # xs) = True"
| "has_Remove (x # xs) = has_Remove xs"

section \<open>Example states\<close>

text \<open>
  A byte cache as \<^verbatim>\<open>NewBytes(2, 1)\<close> followed by \<^verbatim>\<open>Store(1, []byte{7})\<close> at time 50
  leaves it, and a typed-value cache as \<^verbatim>\<open>New(2, 1)\<close> followed by \<^verbatim>\<open>Store(1, 7, 8)\<close>
  at time 50 leaves it.
\<close>

definition ex_B :: Bytes where
  "ex_B = \<lparr>vals_B = [None, Some \<lparr>lastAccess_B = 50, data_B = Some [7]\<rparr>],
           mem_B = 1, max_B = 1048576, size_B = 2\<rparr>"

definition ex_I :: "nat Interface" where
  "ex_I = \<lparr>vals_I = [None, Some \<lparr>lastAccess_I = 50, data_I = IValue 7, entry_size_I = 8\<rparr>],
           mem_I = 8, max_I = 1024, size_I = 2\<rparr>"

text \<open>
  Two caches over budget at time 1700000000. The byte cache is \<^verbatim>\<open>NewBytes(2, 0)\<close> with
  a one-byte payload stored 432001 seconds earlier and a two-byte payload stored 100
  seconds earlier. The typed-value cache is \<^verbatim>\<open>New(2, 1)\<close> with two values of declared
  size 600, stored 432001 and exactly 432000 seconds earlier. The registry holds them and
  the first example byte cache.
\<close>

definition sweep_ex_B :: Bytes where
  "sweep_ex_B = \<lparr>vals_B = [Some \<lparr>lastAccess_B = 1699567999, data_B = Some [1]\<rparr>,
                           Some \<lparr>lastAccess_B = 1699999900, data_B = Some [2, 3]\<rparr>],
                 mem_B = 3, max_B = 0, size_B = 2\<rparr>"

definition sweep_ex_I :: "nat Interface" where
  "sweep_ex_I = \<lparr>vals_I = [Some \<lparr>lastAccess_I = 1699567999, data_I = IValue 1, entry_size_I = 600\<rparr>,
                           Some \<lparr>lastAccess_I = 1699568000, data_I = IValue 2, entry_size_I = 600\<rparr>],
                 mem_I = 1200, max_I = 1024, size_I = 2\<rparr>"

text \<open>A clock that reads the same time at every stage, and one such clock per cache.\<close>

definition steady_clock :: "int64 \<Rightarrow> nat \<Rightarrow> int64" where
  "steady_clock t j = t"

definition steady_clocks :: "int64 \<Rightarrow> nat \<Rightarrow> nat \<Rightarrow> int64" where
  "steady_clocks t k = steady_clock t"

definition sweep_world :: "nat world" where
  "sweep_world = \<lparr>heap1 = [sweep_ex_B, ex_B], heap2 = [sweep_ex_I],
                  caches1 = [0, 1], caches2 = [0]\<rparr>"

text \<open>
  A cache of the older file over its budget of 0 at time 1700000000: a one-byte payload
  stored 432001 seconds earlier and an empty payload stored 100000 seconds earlier.
\<close>

definition legacy_ex :: cache where
  "legacy_ex = \<lparr>vals_L = [Some \<lparr>lastAccess_B = 1699567999, data_B = Some [1]\<rparr>,
                          Some \<lparr>lastAccess_B = 1699900000, data_B = Some []\<rparr>],
                mem_L = 1, max_L = 0\<rparr>"

section \<open>Purge\<close>

text \<open>
  A remaining-slots list \<open>x # rest\<close> that is the tail of the table from \<open>i\<close> pins down slot
  \<open>i\<close> and the tail from \<open>i + 1\<close>.
\<close>

lemma drop_Cons_split:
  "drop i vs = x # rest \<Longrightarrow>
     i < length vs \<and> vs ! i = x \<and> drop (Suc i) vs = rest \<and> take (Suc i) vs = take i vs @ [x]"
proof -
  assume h: "drop i vs = x # rest"
  then have i: "i < length vs" by (cases "i < length vs") auto
  from h i have "vs ! i = x \<and> drop (Suc i) vs = rest"
    by (simp flip: Cons_nth_drop_Suc)
  with i show ?thesis by (simp add: take_Suc_conv_app_nth)
qed

text \<open>
  Loop invariant of the byte cache's purge: when the slots still to visit are the table
  from \<open>i\<close>, the loop leaves the slots before \<open>i\<close> alone and clears the stale ones after.
\<close>

lemma Bytes_Purge_loop_vals:
  "drop i (vals_B c) = xs \<Longrightarrow>
   vals_B (Bytes_Purge_loop t i xs c) = take i (vals_B c) @ map (purged_slot_B t) xs"
proof (induction t i xs c rule: Bytes_Purge_loop.induct)
  case (1 t i c)
  then show ?case by simp
next
  case (2 t i rest c)
  from drop_Cons_split [OF "2.prems"] "2.IH" show ?case
    by (simp add: purged_slot_B_def stale_B_def)
next
  case (3 t i item rest c)
  note d = drop_Cons_split [OF "3.prems"]
  show ?case
  proof (cases "lastAccess_B item <s t")
    case True
    let ?c = "c\<lparr>mem_B := mem_B c + (0 - len64 (data_B item)), vals_B := (vals_B c)[i := None]\<rparr>"
    have "drop (Suc i) (vals_B ?c) = rest" using d by simp
    from this have "vals_B (Bytes_Purge_loop t (Suc i) rest ?c)
        = take (Suc i) (vals_B ?c) @ map (purged_slot_B t) rest"
      using "3.IH" True by simp
    moreover have "take (Suc i) (vals_B ?c) = take i (vals_B c) @ [None]"
      using d by (simp add: take_Suc_conv_app_nth)
    ultimately show ?thesis using True by (simp add: purged_slot_B_def stale_B_def)
  next
    case False
    with d "3.IH" show ?thesis by (simp add: purged_slot_B_def stale_B_def)
  qed
qed

lemma Bytes_Purge_loop_mem:
  "mem_B (Bytes_Purge_loop t i xs c) = mem_B c - sum_list (map slot_size_B (filter (stale_B t) xs))"
  by (induction t i xs c rule: Bytes_Purge_loop.induct)
     (simp_all add: stale_B_def slot_size_B_def)

lemma Bytes_Purge_loop_frame:
  "max_B (Bytes_Purge_loop t i xs c) = max_B c \<and> size_B (Bytes_Purge_loop t i xs c) = size_B c"
  by (induction t i xs c rule: Bytes_Purge_loop.induct) simp_all

lemma Bytes_Purge_eq:
  "Bytes_Purge t c =
     c\<lparr>vals_B := map (purged_slot_B t) (vals_B c),
       mem_B := mem_B c - sum_list (map slot_size_B (filter (stale_B t) (vals_B c)))\<rparr>"
  by (rule Bytes.equality)
     (simp_all add: Bytes_Purge_def Bytes_Purge_loop_vals Bytes_Purge_loop_mem Bytes_Purge_loop_frame)

lemma purged_slot_B_idem: "purged_slot_B t (purged_slot_B t s) = purged_slot_B t s"
  by (simp add: purged_slot_B_def stale_B_def)

lemma no_stale_after_purge_B: "filter (stale_B t) (map (purged_slot_B t) vs) = []"
  by (induction vs) (simp_all add: purged_slot_B_def stale_B_def)

text \<open>The same for the cache of typed values.\<close>

lemma Interface_Purge_loop_vals:
  "drop i (vals_I c) = xs \<Longrightarrow>
   vals_I (Interface_Purge_loop t i xs c) = take i (vals_I c) @ map (purged_slot_I t) xs"
proof (induction t i xs c rule: Interface_Purge_loop.induct)
  case (1 t i c)
  then show ?case by simp
next
  case (2 t i rest c)
  from drop_Cons_split [OF "2.prems"] "2.IH" show ?case
    by (simp add: purged_slot_I_def stale_I_def)
next
  case (3 t i item rest c)
  note d = drop_Cons_split [OF "3.prems"]
  show ?case
  proof (cases "lastAccess_I item <s t")
    case True
    let ?c = "c\<lparr>mem_I := mem_I c + (0 - entry_size_I item), vals_I := (vals_I c)[i := None]\<rparr>"
    have "drop (Suc i) (vals_I ?c) = rest" using d by simp
    from this have "vals_I (Interface_Purge_loop t (Suc i) rest ?c)
        = take (Suc i) (vals_I ?c) @ map (purged_slot_I t) rest"
      using "3.IH" True by simp
    moreover have "take (Suc i) (vals_I ?c) = take i (vals_I c) @ [None]"
      using d by (simp add: take_Suc_conv_app_nth)
    ultimately show ?thesis using True by (simp add: purged_slot_I_def stale_I_def)
  next
    case False
    with d "3.IH" show ?thesis by (simp add: purged_slot_I_def stale_I_def)
  qed
qed

lemma Interface_Purge_loop_mem:
  "mem_I (Interface_Purge_loop t i xs c) = mem_I c - sum_list (map slot_size_I (filter (stale_I t) xs))"
  by (induction t i xs c rule: Interface_Purge_loop.induct)
     (simp_all add: stale_I_def slot_size_I_def)

lemma Interface_Purge_loop_frame:
  "max_I (Interface_Purge_loop t i xs c) = max_I c \<and> size_I (Interface_Purge_loop t i xs c) = size_I c"
  by (induction t i xs c rule: Interface_Purge_loop.induct) simp_all

lemma Interface_Purge_eq:
  "Interface_Purge t c =
     c\<lparr>vals_I := map (purged_slot_I t) (vals_I c),
       mem_I := mem_I c - sum_list (map slot_size_I (filter (stale_I t) (vals_I c)))\<rparr>"
  by (rule Interface.equality)
     (simp_all add: Interface_Purge_def Interface_Purge_loop_vals Interface_Purge_loop_mem Interface_Purge_loop_frame)

lemma purged_slot_I_idem: "purged_slot_I t (purged_slot_I t s) = purged_slot_I t s"
  by (simp add: purged_slot_I_def stale_I_def)

lemma no_stale_after_purge_I: "filter (stale_I t) (map (purged_slot_I t) vs) = []"
  by (induction vs) (simp_all add: purged_slot_I_def stale_I_def)

text \<open>
  C5. \<^verbatim>\<open>Purge(olderThan)\<close> empties exactly the occupied slots whose entry has
  \<open>lastAccess < olderThan\<close> (signed), keeps every other slot as it was, payload and
  timestamp included, takes the size of each removed entry off the counter, and changes
  neither the budget nor the configured size. Both caches.
\<close>

theorem Purge_removes_exactly_the_stale:
  "Bytes_Purge t c =
     c\<lparr>vals_B := map (purged_slot_B t) (vals_B c),
       mem_B := mem_B c - sum_list (map slot_size_B (filter (stale_B t) (vals_B c)))\<rparr>
   \<and> Interface_Purge t d =
     d\<lparr>vals_I := map (purged_slot_I t) (vals_I d),
       mem_I := mem_I d - sum_list (map slot_size_I (filter (stale_I t) (vals_I d)))\<rparr>"
  using Bytes_Purge_eq [of t c] Interface_Purge_eq [of t d] by (rule conjI)

text \<open>
  C10. Purging twice with the same threshold is purging once: the second pass finds no
  stale entry, so it removes nothing and leaves the counter where it was. Both caches.
\<close>

theorem Purge_idempotent:
  "Bytes_Purge t (Bytes_Purge t c) = Bytes_Purge t c
   \<and> Interface_Purge t (Interface_Purge t d) = Interface_Purge t d"
  by (simp add: Bytes_Purge_eq Interface_Purge_eq purged_slot_B_idem purged_slot_I_idem
      no_stale_after_purge_B no_stale_after_purge_I)

section \<open>Indexing inside the table\<close>

text \<open>
  On a cache whose table is as long as its configured size, an index from 0 to below the
  size passes the guard and is inside the table.
\<close>

lemma in_bounds_wf_B: "wf_B c \<Longrightarrow> 0 \<le> idx \<Longrightarrow> idx < size_B c \<Longrightarrow> in_bounds (vals_B c) idx"
  by (simp add: wf_B_def in_bounds_def)

lemma in_bounds_wf_I: "wf_I c \<Longrightarrow> 0 \<le> idx \<Longrightarrow> idx < size_I c \<Longrightarrow> in_bounds (vals_I c) idx"
  by (simp add: wf_I_def in_bounds_def)

lemma in_bounds_nat: "in_bounds vs idx \<Longrightarrow> nat idx < length vs"
  by (auto simp: in_bounds_def)

text \<open>
  The fields are unexported, so only the package's own functions change them, and they
  keep the table as long as the configured size. (For the byte cache's writes and purge
  this is part of the totality lemma of the counter section.)
\<close>

lemma wf_B_Close: "wf_B (Bytes_Close c)"
  by (simp add: wf_B_def Bytes_Close_def)

lemma wf_B_Get: "Bytes_Get now c idx = Inr (r, c') \<Longrightarrow> wf_B c' = wf_B c"
  by (auto simp: Bytes_Get_def index_def wf_B_def split: if_splits option.splits)

lemma wf_I_Close: "wf_I (Interface_Close c)"
  by (simp add: wf_I_def Interface_Close_def)

lemma wf_I_ops:
  "Interface_Get now c idx = Inr (r, c') \<Longrightarrow> wf_I c' = wf_I c"
  "Interface_Store now c idx p sz = Inr c' \<Longrightarrow> wf_I c' = wf_I c"
  "Interface_Replace now c idx q sz = Inr c' \<Longrightarrow> wf_I c' = wf_I c"
  "Interface_Remove c idx = Inr c' \<Longrightarrow> wf_I c' = wf_I c"
  "wf_I (Interface_Purge t c) = wf_I c"
  by (auto simp: Interface_Get_def Interface_Store_def Interface_Replace_def Interface_Remove_def
      Interface_Purge_eq index_def wf_I_def Let_def split: if_splits option.splits)

text \<open>The example byte cache is what the constructor and one \<^verbatim>\<open>Store\<close> produce.\<close>

lemma replicate_two: "replicate 2 x = [x, x]"
  by (simp add: numeral_2_eq_2)

lemma ex_reachable_B:
  "NewBytes_struct 2 1 = Inr c0 \<Longrightarrow> Bytes_Store 50 c0 1 (Some [7]) = Inr ex_B"
  by (auto simp: NewBytes_struct_def make_len_ok_def maxAlloc_def ptrSize_def Bytes_Store_def
      index_def in_bounds_def ex_B_def len64_def len_bytes_def replicate_two)

text \<open>So are the typed-value example and the two over-budget examples.\<close>

lemma ex_reachable_I:
  "New_struct 2 1 = Inr c0 \<Longrightarrow> Interface_Store 50 c0 1 (IValue 7) 8 = Inr ex_I"
  by (auto simp: New_struct_def make_len_ok_def maxAlloc_def ptrSize_def Interface_Store_def
      index_def in_bounds_def ex_I_def replicate_two)

lemma sweep_ex_B_reachable:
  "NewBytes_struct 2 0 = Inr c0 \<Longrightarrow> Bytes_Store 1699567999 c0 0 (Some [1]) = Inr c1 \<Longrightarrow>
   Bytes_Store 1699999900 c1 1 (Some [2, 3]) = Inr sweep_ex_B"
  by (auto simp: NewBytes_struct_def make_len_ok_def maxAlloc_def ptrSize_def Bytes_Store_def
      index_def in_bounds_def sweep_ex_B_def
      len64_def len_bytes_def replicate_two)

lemma sweep_ex_I_reachable:
  "New_struct 2 1 = Inr c0 \<Longrightarrow> Interface_Store 1699567999 c0 0 (IValue 1) 600 = Inr c1 \<Longrightarrow>
   Interface_Store 1699568000 c1 1 (IValue 2) 600 = Inr sweep_ex_I"
  by (auto simp: New_struct_def make_len_ok_def maxAlloc_def ptrSize_def Interface_Store_def
      index_def in_bounds_def sweep_ex_I_def
      replicate_two)

section \<open>Store\<close>

text \<open>
  C3. For every valid index (from 0 to below the size, on a cache whose table has that
  size): when the slot is empty, \<^verbatim>\<open>Store\<close> puts an entry with the payload and the
  current time there and adds the entry's size to the counter (the payload's length for
  the byte cache, the declared size for the typed-value cache), and a following \<^verbatim>\<open>Get\<close>
  returns that payload with \<open>found = true\<close>; when the slot is occupied, \<^verbatim>\<open>Store\<close>
  returns the cache exactly as it was: payload, timestamp and counter included.
\<close>

theorem Store_on_valid_index:
  "(wf_B c \<and> 0 \<le> idx \<and> idx < size_B c \<longrightarrow>
      (vals_B c ! nat idx = None \<longrightarrow>
         (let c' = c\<lparr>vals_B := (vals_B c)[nat idx := Some \<lparr>lastAccess_B = now, data_B = p\<rparr>],
                      mem_B := mem_B c + len64 p\<rparr>
          in Bytes_Store now c idx p = Inr c' \<and>
             Bytes_Get now' c' idx =
               Inr ((p, True),
                    c'\<lparr>vals_B := (vals_B c')[nat idx := Some \<lparr>lastAccess_B = now', data_B = p\<rparr>]\<rparr>)))
      \<and> (vals_B c ! nat idx \<noteq> None \<longrightarrow> Bytes_Store now c idx p = Inr c))
   \<and> (wf_I d \<and> 0 \<le> j \<and> j < size_I d \<longrightarrow>
      (vals_I d ! nat j = None \<longrightarrow>
         (let d' = d\<lparr>vals_I := (vals_I d)[nat j :=
                          Some \<lparr>lastAccess_I = now, data_I = q, entry_size_I = sz\<rparr>],
                      mem_I := mem_I d + sz\<rparr>
          in Interface_Store now d j q sz = Inr d' \<and>
             Interface_Get now' d' j =
               Inr ((q, True),
                    d'\<lparr>vals_I := (vals_I d')[nat j :=
                          Some \<lparr>lastAccess_I = now', data_I = q, entry_size_I = sz\<rparr>]\<rparr>)))
      \<and> (vals_I d ! nat j \<noteq> None \<longrightarrow> Interface_Store now d j q sz = Inr d))"
proof (intro conjI impI)
  assume h: "wf_B c \<and> 0 \<le> idx \<and> idx < size_B c" and e: "vals_B c ! nat idx = None"
  from h have b: "in_bounds (vals_B c) idx" by (simp add: in_bounds_wf_B)
  from b have n: "nat idx < length (vals_B c)" by (rule in_bounds_nat)
  from b e h n show "let c' = c\<lparr>vals_B := (vals_B c)[nat idx := Some \<lparr>lastAccess_B = now, data_B = p\<rparr>],
                      mem_B := mem_B c + len64 p\<rparr>
          in Bytes_Store now c idx p = Inr c' \<and>
             Bytes_Get now' c' idx =
               Inr ((p, True),
                    c'\<lparr>vals_B := (vals_B c')[nat idx := Some \<lparr>lastAccess_B = now', data_B = p\<rparr>]\<rparr>)"
    by (simp add: Let_def Bytes_Store_def Bytes_Get_def index_def in_bounds_def)
next
  assume h: "wf_B c \<and> 0 \<le> idx \<and> idx < size_B c" and e: "vals_B c ! nat idx \<noteq> None"
  from h have b: "in_bounds (vals_B c) idx" by (simp add: in_bounds_wf_B)
  from b e h show "Bytes_Store now c idx p = Inr c"
    by (auto simp: Bytes_Store_def index_def)
next
  assume h: "wf_I d \<and> 0 \<le> j \<and> j < size_I d" and e: "vals_I d ! nat j = None"
  from h have b: "in_bounds (vals_I d) j" by (simp add: in_bounds_wf_I)
  from b have n: "nat j < length (vals_I d)" by (rule in_bounds_nat)
  from b e h n show "let d' = d\<lparr>vals_I := (vals_I d)[nat j :=
                          Some \<lparr>lastAccess_I = now, data_I = q, entry_size_I = sz\<rparr>],
                      mem_I := mem_I d + sz\<rparr>
          in Interface_Store now d j q sz = Inr d' \<and>
             Interface_Get now' d' j =
               Inr ((q, True),
                    d'\<lparr>vals_I := (vals_I d')[nat j :=
                          Some \<lparr>lastAccess_I = now', data_I = q, entry_size_I = sz\<rparr>]\<rparr>)"
    by (simp add: Let_def Interface_Store_def Interface_Get_def index_def in_bounds_def)
next
  assume h: "wf_I d \<and> 0 \<le> j \<and> j < size_I d" and e: "vals_I d ! nat j \<noteq> None"
  from h have b: "in_bounds (vals_I d) j" by (simp add: in_bounds_wf_I)
  from b e h show "Interface_Store now d j q sz = Inr d"
    by (auto simp: Interface_Store_def index_def)
qed

text \<open>
  The theorem at the example caches: slot 0 is empty and gets the payload, slot 1 is
  occupied and nothing changes.
\<close>

theorem Store_on_valid_index_witness:
  "wf_B ex_B \<and> (0::int) \<le> 0 \<and> 0 < size_B ex_B \<and> 1 < size_B ex_B
   \<and> Bytes_Store 100 ex_B 0 (Some [1, 2, 3])
      = Inr \<lparr>vals_B = [Some \<lparr>lastAccess_B = 100, data_B = Some [1, 2, 3]\<rparr>,
                       Some \<lparr>lastAccess_B = 50, data_B = Some [7]\<rparr>],
             mem_B = 4, max_B = 1048576, size_B = 2\<rparr>
   \<and> Bytes_Get 200 \<lparr>vals_B = [Some \<lparr>lastAccess_B = 100, data_B = Some [1, 2, 3]\<rparr>,
                       Some \<lparr>lastAccess_B = 50, data_B = Some [7]\<rparr>],
             mem_B = 4, max_B = 1048576, size_B = 2\<rparr> 0
      = Inr ((Some [1, 2, 3], True),
             \<lparr>vals_B = [Some \<lparr>lastAccess_B = 200, data_B = Some [1, 2, 3]\<rparr>,
                       Some \<lparr>lastAccess_B = 50, data_B = Some [7]\<rparr>],
             mem_B = 4, max_B = 1048576, size_B = 2\<rparr>)
   \<and> Bytes_Store 100 ex_B 1 (Some [1, 2, 3]) = Inr ex_B
   \<and> wf_I ex_I \<and> 0 < size_I ex_I \<and> 1 < size_I ex_I
   \<and> Interface_Store 100 ex_I 0 (IValue 9) 16
      = Inr \<lparr>vals_I = [Some \<lparr>lastAccess_I = 100, data_I = IValue 9, entry_size_I = 16\<rparr>,
                       Some \<lparr>lastAccess_I = 50, data_I = IValue 7, entry_size_I = 8\<rparr>],
             mem_I = 24, max_I = 1024, size_I = 2\<rparr>
   \<and> Interface_Store 100 ex_I 1 (IValue 9) 16 = Inr ex_I"
  using Store_on_valid_index [where c = ex_B and idx = 0 and now = 100 and p = "Some [1, 2, 3]"
           and now' = 200 and d = ex_I and j = 0 and q = "IValue 9" and sz = 16]
     Store_on_valid_index [where c = ex_B and idx = 1 and now = 100 and p = "Some [1, 2, 3]"
           and now' = 200 and d = ex_I and j = 1 and q = "IValue 9" and sz = 16]
  by (simp add: ex_B_def ex_I_def wf_B_def wf_I_def len64_def len_bytes_def Let_def)

section \<open>Replace\<close>

text \<open>
  What \<^verbatim>\<open>Replace\<close> leaves behind at a valid index, in one equation for both cases: the
  counter moves by the new size minus the size the slot accounted for (0 when empty).
  In the typed-value cache the entry keeps the size it was created with.
\<close>

lemma Bytes_Replace_eq:
  assumes "wf_B c" "0 \<le> idx" "idx < size_B c"
  shows "Bytes_Replace tim c idx p =
     Inr (c\<lparr>vals_B := (vals_B c)[nat idx := Some \<lparr>lastAccess_B = tim, data_B = p\<rparr>],
            mem_B := mem_B c + (len64 p - slot_size_B (vals_B c ! nat idx))\<rparr>)"
proof -
  from assms have b: "in_bounds (vals_B c) idx" by (rule in_bounds_wf_B)
  show ?thesis
  proof (cases "vals_B c ! nat idx")
    case None
    with b assms show ?thesis
      by (simp add: Bytes_Replace_def index_def slot_size_B_def)
  next
    case (Some item)
    with b assms show ?thesis
      by (cases item) (simp add: Bytes_Replace_def index_def slot_size_B_def len64_def Let_def)
  qed
qed

lemma Bytes_Get_occupied:
  assumes "in_bounds (vals_B c) idx" "idx < size_B c" "vals_B c ! nat idx = Some item"
  shows "Bytes_Get now c idx =
     Inr ((data_B item, True), c\<lparr>vals_B := (vals_B c)[nat idx := Some (item\<lparr>lastAccess_B := now\<rparr>)]\<rparr>)"
  using assms by (simp add: Bytes_Get_def index_def)

lemma Interface_Get_occupied:
  assumes "in_bounds (vals_I c) idx" "idx < size_I c" "vals_I c ! nat idx = Some item"
  shows "Interface_Get now c idx =
     Inr ((data_I item, True), c\<lparr>vals_I := (vals_I c)[nat idx := Some (item\<lparr>lastAccess_I := now\<rparr>)]\<rparr>)"
  using assms by (simp add: Interface_Get_def index_def)

lemma Interface_Replace_eq:
  assumes "wf_I d" "0 \<le> j" "j < size_I d"
  shows "Interface_Replace tim d j q sz =
     Inr (d\<lparr>vals_I := (vals_I d)[nat j :=
               Some \<lparr>lastAccess_I = tim, data_I = IBytes q,
                     entry_size_I = (case vals_I d ! nat j of None \<Rightarrow> sz | Some item \<Rightarrow> entry_size_I item)\<rparr>],
            mem_I := mem_I d + (sz - slot_size_I (vals_I d ! nat j))\<rparr>)"
proof -
  from assms have b: "in_bounds (vals_I d) j" by (rule in_bounds_wf_I)
  show ?thesis
  proof (cases "vals_I d ! nat j")
    case None
    with b assms show ?thesis
      by (simp add: Interface_Replace_def index_def slot_size_I_def)
  next
    case (Some item)
    with b assms show ?thesis
      by (cases item) (simp add: Interface_Replace_def index_def slot_size_I_def Let_def)
  qed
qed

text \<open>
  C4, the claim as written fails: at the index equal to the size of the example caches,
  \<^verbatim>\<open>Replace\<close> changes nothing and the following \<^verbatim>\<open>Get\<close> finds nothing.
\<close>

theorem Replace_beyond_size_not_observed:
  "Bytes_Replace 100 ex_B 2 (Some [1, 2, 3]) = Inr ex_B
   \<and> Bytes_Get 200 ex_B 2 = Inr ((None, False), ex_B)
   \<and> Interface_Replace 100 ex_I 2 (Some [1, 2, 3]) 16 = Inr ex_I
   \<and> Interface_Get 200 ex_I 2 = Inr ((INil, False), ex_I)"
  by (simp add: Bytes_Replace_def Bytes_Get_def Interface_Replace_def Interface_Get_def ex_B_def ex_I_def)

text \<open>
  C4, amended to valid indices. For every index from 0 to below the size, \<^verbatim>\<open>Replace\<close>
  leaves an entry with the new payload and the new timestamp in the slot, and a following
  \<^verbatim>\<open>Get\<close> returns the new payload with \<open>found = true\<close>. In the byte cache the counter
  moves by the new length when the slot was empty and by the new length minus the old one
  (possibly negative) otherwise. In the typed-value cache a created entry adds its
  declared size to the counter.
\<close>

theorem Replace_on_valid_index:
  "(wf_B c \<and> 0 \<le> idx \<and> idx < size_B c \<longrightarrow>
      (let c' = c\<lparr>vals_B := (vals_B c)[nat idx := Some \<lparr>lastAccess_B = tim, data_B = p\<rparr>],
                   mem_B := mem_B c + (len64 p - slot_size_B (vals_B c ! nat idx))\<rparr>
       in Bytes_Replace tim c idx p = Inr c' \<and>
          Bytes_Get now' c' idx =
            Inr ((p, True),
                 c'\<lparr>vals_B := (vals_B c')[nat idx := Some \<lparr>lastAccess_B = now', data_B = p\<rparr>]\<rparr>)))
   \<and> (wf_I d \<and> 0 \<le> j \<and> j < size_I d \<longrightarrow>
      (vals_I d ! nat j = None \<longrightarrow>
         Interface_Replace tim d j q sz =
           Inr (d\<lparr>vals_I := (vals_I d)[nat j :=
                      Some \<lparr>lastAccess_I = tim, data_I = IBytes q, entry_size_I = sz\<rparr>],
                  mem_I := mem_I d + sz\<rparr>))
      \<and> (case Interface_Replace tim d j q sz of
            Inl e \<Rightarrow> False
          | Inr d' \<Rightarrow>
              map_option (\<lambda>item. (data_I item, lastAccess_I item)) (vals_I d' ! nat j)
                = Some (IBytes q, tim)
              \<and> map_sum (\<lambda>e. e) fst (Interface_Get now' d' j) = Inr (IBytes q, True)))"
proof (intro conjI impI)
  assume h: "wf_B c \<and> 0 \<le> idx \<and> idx < size_B c"
  then have b: "in_bounds (vals_B c) idx" by (simp add: in_bounds_wf_B)
  then have n: "nat idx < length (vals_B c)" by (rule in_bounds_nat)
  let ?c' = "c\<lparr>vals_B := (vals_B c)[nat idx := Some \<lparr>lastAccess_B = tim, data_B = p\<rparr>],
                   mem_B := mem_B c + (len64 p - slot_size_B (vals_B c ! nat idx))\<rparr>"
  have r: "Bytes_Replace tim c idx p = Inr ?c'" using h by (simp add: Bytes_Replace_eq)
  have b': "in_bounds (vals_B ?c') idx" using b by (simp add: in_bounds_def)
  have g: "Bytes_Get now' ?c' idx =
            Inr ((p, True),
                 ?c'\<lparr>vals_B := (vals_B ?c')[nat idx := Some \<lparr>lastAccess_B = now', data_B = p\<rparr>]\<rparr>)"
    using h n by (subst Bytes_Get_occupied [OF b', where item = "\<lparr>lastAccess_B = tim, data_B = p\<rparr>"]) simp_all
  from r g show "let c' = ?c' in Bytes_Replace tim c idx p = Inr c' \<and>
          Bytes_Get now' c' idx =
            Inr ((p, True),
                 c'\<lparr>vals_B := (vals_B c')[nat idx := Some \<lparr>lastAccess_B = now', data_B = p\<rparr>]\<rparr>)"
    by (simp only: Let_def)
next
  assume h: "wf_I d \<and> 0 \<le> j \<and> j < size_I d" and e: "vals_I d ! nat j = None"
  then show "Interface_Replace tim d j q sz =
           Inr (d\<lparr>vals_I := (vals_I d)[nat j :=
                      Some \<lparr>lastAccess_I = tim, data_I = IBytes q, entry_size_I = sz\<rparr>],
                  mem_I := mem_I d + sz\<rparr>)"
    by (simp add: Interface_Replace_eq slot_size_I_def)
next
  assume h: "wf_I d \<and> 0 \<le> j \<and> j < size_I d"
  then have b: "in_bounds (vals_I d) j" by (simp add: in_bounds_wf_I)
  then have n: "nat j < length (vals_I d)" by (rule in_bounds_nat)
  let ?item = "\<lparr>lastAccess_I = tim, data_I = IBytes q,
                     entry_size_I = (case vals_I d ! nat j of None \<Rightarrow> sz | Some item \<Rightarrow> entry_size_I item)\<rparr>"
  let ?d' = "d\<lparr>vals_I := (vals_I d)[nat j := Some ?item],
            mem_I := mem_I d + (sz - slot_size_I (vals_I d ! nat j))\<rparr>"
  have r: "Interface_Replace tim d j q sz = Inr ?d'" using h by (simp add: Interface_Replace_eq)
  have b': "in_bounds (vals_I ?d') j" using b by (simp add: in_bounds_def)
  have g: "Interface_Get now' ?d' j =
            Inr ((IBytes q, True), ?d'\<lparr>vals_I := (vals_I ?d')[nat j := Some (?item\<lparr>lastAccess_I := now'\<rparr>)]\<rparr>)"
    using h n by (subst Interface_Get_occupied [OF b', where item = ?item]) simp_all
  show "case Interface_Replace tim d j q sz of
            Inl e \<Rightarrow> False
          | Inr d' \<Rightarrow>
              map_option (\<lambda>item. (data_I item, lastAccess_I item)) (vals_I d' ! nat j)
                = Some (IBytes q, tim)
              \<and> map_sum (\<lambda>e. e) fst (Interface_Get now' d' j) = Inr (IBytes q, True)"
    unfolding r using n g by simp
qed

text \<open>The theorem at the example caches: an occupied byte slot and an empty typed slot.\<close>

theorem Replace_on_valid_index_witness:
  "wf_B ex_B \<and> (0::int) \<le> 1 \<and> 1 < size_B ex_B
   \<and> Bytes_Replace 100 ex_B 1 (Some [1, 2, 3])
      = Inr \<lparr>vals_B = [None, Some \<lparr>lastAccess_B = 100, data_B = Some [1, 2, 3]\<rparr>],
             mem_B = 3, max_B = 1048576, size_B = 2\<rparr>
   \<and> Bytes_Get 200 \<lparr>vals_B = [None, Some \<lparr>lastAccess_B = 100, data_B = Some [1, 2, 3]\<rparr>],
             mem_B = 3, max_B = 1048576, size_B = 2\<rparr> 1
      = Inr ((Some [1, 2, 3], True),
             \<lparr>vals_B = [None, Some \<lparr>lastAccess_B = 200, data_B = Some [1, 2, 3]\<rparr>],
              mem_B = 3, max_B = 1048576, size_B = 2\<rparr>)
   \<and> wf_I ex_I \<and> 0 < size_I ex_I
   \<and> Interface_Replace 100 ex_I 0 (Some [1, 2, 3]) 16
      = Inr \<lparr>vals_I = [Some \<lparr>lastAccess_I = 100, data_I = IBytes (Some [1, 2, 3]), entry_size_I = 16\<rparr>,
                       Some \<lparr>lastAccess_I = 50, data_I = IValue 7, entry_size_I = 8\<rparr>],
             mem_I = 24, max_I = 1024, size_I = 2\<rparr>"
  using Replace_on_valid_index [where c = ex_B and idx = 1 and tim = 100 and p = "Some [1, 2, 3]"
           and now' = 200 and d = ex_I and j = 0 and q = "Some [1, 2, 3]" and sz = 16]
  by (simp add: ex_B_def ex_I_def wf_B_def wf_I_def len64_def len_bytes_def slot_size_B_def Let_def)

section \<open>Remove\<close>

text \<open>At a valid index \<^verbatim>\<open>Remove\<close> empties the slot, so a following \<^verbatim>\<open>Get\<close> finds nothing.\<close>

lemma Bytes_Remove_eq:
  "wf_B c \<Longrightarrow> 0 \<le> idx \<Longrightarrow> idx < size_B c \<Longrightarrow>
   Bytes_Remove c idx = Inr (c\<lparr>vals_B := (vals_B c)[nat idx := None]\<rparr>)"
  by (simp add: Bytes_Remove_def in_bounds_wf_B)

lemma Interface_Remove_eq:
  "wf_I c \<Longrightarrow> 0 \<le> idx \<Longrightarrow> idx < size_I c \<Longrightarrow>
   Interface_Remove c idx = Inr (c\<lparr>vals_I := (vals_I c)[nat idx := None]\<rparr>)"
  by (simp add: Interface_Remove_def in_bounds_wf_I)

lemma Bytes_Get_after_Remove:
  "wf_B c \<Longrightarrow> 0 \<le> idx \<Longrightarrow> idx < size_B c \<Longrightarrow>
   Bytes_Get now (c\<lparr>vals_B := (vals_B c)[nat idx := None]\<rparr>) idx
     = Inr ((None, False), c\<lparr>vals_B := (vals_B c)[nat idx := None]\<rparr>)"
  by (auto simp: Bytes_Get_def index_def in_bounds_def wf_B_def)

text \<open>
  C1, the code at the failing input. \<^verbatim>\<open>Remove(1)\<close> on the example caches empties the
  occupied slot 1 and leaves the counter at the removed entry's size (1 and 8) instead of
  taking it off.
\<close>

theorem Remove_leaves_counter:
  "Bytes_Remove ex_B 1 = Inr \<lparr>vals_B = [None, None], mem_B = 1, max_B = 1048576, size_B = 2\<rparr>
   \<and> Interface_Remove ex_I 1 = Inr \<lparr>vals_I = [None, None], mem_I = 8, max_I = 1024, size_I = 2\<rparr>"
  by (simp add: Bytes_Remove_def Interface_Remove_def in_bounds_def ex_B_def ex_I_def)

section \<open>Indices outside the table\<close>

text \<open>
  An index at or above the configured size is ignored by every operation. A negative
  index passes the only guard, \<^verbatim>\<open>id >= c.size\<close>, and the slice access panics.
\<close>

lemma index_at_or_above_size_ignored_B:
  "size_B c \<le> idx \<Longrightarrow>
     Bytes_Get now c idx = Inr ((None, False), c) \<and> Bytes_Store now c idx p = Inr c
     \<and> Bytes_Replace now c idx p = Inr c \<and> Bytes_Remove c idx = Inr c"
  by (simp add: Bytes_Get_def Bytes_Store_def Bytes_Replace_def Bytes_Remove_def)

lemma index_at_or_above_size_ignored_I:
  "size_I c \<le> idx \<Longrightarrow>
     Interface_Get now c idx = Inr ((INil, False), c) \<and> Interface_Store now c idx p sz = Inr c
     \<and> Interface_Replace now c idx q sz = Inr c \<and> Interface_Remove c idx = Inr c"
  by (simp add: Interface_Get_def Interface_Store_def Interface_Replace_def Interface_Remove_def)

lemma below_zero_panics_B:
  "wf_B c \<Longrightarrow> idx < 0 \<Longrightarrow>
     Bytes_Get now c idx = Inl IndexOutOfRange \<and> Bytes_Store now c idx p = Inl IndexOutOfRange
     \<and> Bytes_Replace now c idx p = Inl IndexOutOfRange \<and> Bytes_Remove c idx = Inl IndexOutOfRange"
  by (auto simp: Bytes_Get_def Bytes_Store_def Bytes_Replace_def Bytes_Remove_def index_def
      in_bounds_def wf_B_def)

text \<open>
  C2, the code at the failing input. With index \<open>-1\<close> on the example byte cache, \<^verbatim>\<open>Get\<close>,
  \<^verbatim>\<open>Store\<close>, \<^verbatim>\<open>Replace\<close> and \<^verbatim>\<open>Remove\<close> all panic with an index out of range.
\<close>

theorem negative_index_panics:
  "Bytes_Get 100 ex_B (- 1) = Inl IndexOutOfRange
   \<and> Bytes_Store 100 ex_B (- 1) (Some [1]) = Inl IndexOutOfRange
   \<and> Bytes_Replace 100 ex_B (- 1) (Some [1]) = Inl IndexOutOfRange
   \<and> Bytes_Remove ex_B (- 1) = Inl IndexOutOfRange"
  by (simp add: Bytes_Get_def Bytes_Store_def Bytes_Replace_def Bytes_Remove_def index_def
      in_bounds_def ex_B_def)

section \<open>Close\<close>

text \<open>
  \<^verbatim>\<open>Close\<close> zeroes the size, the budget and the counter and drops the table. From then
  on \<^verbatim>\<open>Get\<close> at any index from 0 upwards finds nothing, and the writes change nothing.
\<close>

lemma Bytes_Close_eq: "Bytes_Close c = \<lparr>vals_B = [], mem_B = 0, max_B = 0, size_B = 0\<rparr>"
  by (cases c) (simp add: Bytes_Close_def)

lemma Get_after_Close_from_0:
  "0 \<le> idx \<Longrightarrow> Bytes_Get now (Bytes_Close c) idx = Inr ((None, False), Bytes_Close c)"
  by (simp add: Bytes_Get_def Bytes_Close_def)

lemma closed_stays_closed:
  "0 \<le> idx \<Longrightarrow>
     Bytes_Store now (Bytes_Close c) idx p = Inr (Bytes_Close c)
     \<and> Bytes_Replace now (Bytes_Close c) idx p = Inr (Bytes_Close c)
     \<and> Bytes_Remove (Bytes_Close c) idx = Inr (Bytes_Close c)
     \<and> Bytes_Purge t (Bytes_Close c) = Bytes_Close c"
  by (simp add: Bytes_Store_def Bytes_Replace_def Bytes_Remove_def Bytes_Purge_def Bytes_Close_def)

text \<open>
  C9, the code at the failing input. After \<^verbatim>\<open>Close\<close>, \<^verbatim>\<open>Get(-1)\<close> does not return
  \<open>found = false\<close>: it panics with an index out of range.
\<close>

theorem Get_after_Close_negative_index:
  "Bytes_Close ex_B = \<lparr>vals_B = [], mem_B = 0, max_B = 0, size_B = 0\<rparr>
   \<and> Bytes_Get 100 (Bytes_Close ex_B) (- 1) = Inl IndexOutOfRange"
  by (simp add: Bytes_Get_def Bytes_Close_def index_def in_bounds_def ex_B_def)

section \<open>Construction\<close>

lemma make_len_ok_small: "make_len_ok 1" "make_len_ok 2"
  by (simp_all add: make_len_ok_def maxAlloc_def ptrSize_def)

lemma Bytes_Get_fresh:
  "0 \<le> sz \<Longrightarrow> 0 \<le> idx \<Longrightarrow>
   Bytes_Get now \<lparr>vals_B = replicate (nat sz) None, mem_B = 0, max_B = m, size_B = sz\<rparr> idx
   = Inr ((None, False), \<lparr>vals_B = replicate (nat sz) None, mem_B = 0, max_B = m, size_B = sz\<rparr>)"
  by (auto simp: Bytes_Get_def index_def in_bounds_def)

lemma Interface_Get_fresh:
  "0 \<le> sz \<Longrightarrow> 0 \<le> idx \<Longrightarrow>
   Interface_Get now \<lparr>vals_I = replicate (nat sz) None, mem_I = 0, max_I = m, size_I = sz\<rparr> idx
   = Inr ((INil, False), \<lparr>vals_I = replicate (nat sz) None, mem_I = 0, max_I = m, size_I = sz\<rparr>)"
  by (auto simp: Interface_Get_def index_def in_bounds_def)

text \<open>What \<^verbatim>\<open>New\<close> returns for a length that \<^verbatim>\<open>make\<close> accepts, budget included.\<close>

lemma New_eq:
  "make_len_ok sz \<Longrightarrow>
   New w sz megabytes =
     Inr (length (heap2 w),
          w\<lparr>heap2 := heap2 w @ [\<lparr>vals_I = replicate (nat sz) None, mem_I = 0,
                                    max_I = megabytes * 1024, size_I = sz\<rparr>],
            caches2 := caches2 w @ [length (heap2 w)]\<rparr>)"
  by (simp add: New_def New_struct_def Let_def)

text \<open>
  C6, the claim as written fails: \<^verbatim>\<open>NewBytes(2, 1)\<close> sets the budget to 1048576, not to
  its second argument, and with the sizes \<open>-1\<close> and \<open>2^60\<close> the constructor allocates no
  slots: \<^verbatim>\<open>make\<close> panics.
\<close>

theorem NewBytes_scales_budget:
  "NewBytes (empty_world :: nat world) 2 1
      = Inr (0, \<lparr>heap1 = [\<lparr>vals_B = [None, None], mem_B = 0, max_B = 1048576, size_B = 2\<rparr>],
                 heap2 = [], caches1 = [0], caches2 = []\<rparr>)
   \<and> (1048576 :: int64) \<noteq> 1
   \<and> NewBytes (empty_world :: nat world) (- 1) 1 = Inl MakeSliceLenOutOfRange
   \<and> NewBytes (empty_world :: nat world) 1152921504606846976 1 = Inl MakeSliceLenOutOfRange"
proof (intro conjI)
  show "NewBytes (empty_world :: nat world) 2 1
      = Inr (0, \<lparr>heap1 = [\<lparr>vals_B = [None, None], mem_B = 0, max_B = 1048576, size_B = 2\<rparr>],
                 heap2 = [], caches1 = [0], caches2 = []\<rparr>)"
    by (simp add: NewBytes_def NewBytes_struct_def make_len_ok_small empty_world_def replicate_two)
  show "(1048576 :: int64) \<noteq> 1" by simp
  show "NewBytes (empty_world :: nat world) (- 1) 1 = Inl MakeSliceLenOutOfRange"
    by (simp add: NewBytes_def NewBytes_struct_def make_len_ok_def)
  show "NewBytes (empty_world :: nat world) 1152921504606846976 1 = Inl MakeSliceLenOutOfRange"
    by (simp add: NewBytes_def NewBytes_struct_def make_len_ok_def maxAlloc_def ptrSize_def)
qed

text \<open>
  C6, amended. For a size that \<^verbatim>\<open>make\<close> accepts (at least 0 and at most \<open>2^45\<close>), the
  constructor allocates exactly that many empty slots, so \<^verbatim>\<open>Get\<close> at every index from 0
  upwards finds nothing; it leaves the counter at 0; and it appends the new cache to the
  end of the registry of its kind, leaving the rest of the registry and the other caches
  as they were. \<^verbatim>\<open>NewBytes\<close> sets the budget to its second argument, a number of
  megabytes, times 1048576 (in 64-bit arithmetic). Nothing is said here about the budget
  that \<^verbatim>\<open>New\<close> sets.
\<close>

theorem Construct_fresh_cache:
  "make_len_ok sz \<and> 0 \<le> idx \<longrightarrow>
     (let c = \<lparr>vals_B = replicate (nat sz) None, mem_B = 0,
               max_B = megabytes * 1048576, size_B = sz\<rparr>;
          a = length (heap1 w)
      in NewBytes w sz megabytes = Inr (a, w\<lparr>heap1 := heap1 w @ [c], caches1 := caches1 w @ [a]\<rparr>)
         \<and> length (vals_B c) = nat sz \<and> wf_B c
         \<and> Bytes_Get now c idx = Inr ((None, False), c))
   \<and> (case New w sz megabytes of
         Inl e \<Rightarrow> False
       | Inr (a, w') \<Rightarrow>
           a = length (heap2 w)
           \<and> heap1 w' = heap1 w \<and> caches1 w' = caches1 w
           \<and> caches2 w' = caches2 w @ [a]
           \<and> heap2 w' = heap2 w @ [heap2 w' ! a]
           \<and> vals_I (heap2 w' ! a) = replicate (nat sz) None
           \<and> mem_I (heap2 w' ! a) = 0
           \<and> size_I (heap2 w' ! a) = sz
           \<and> wf_I (heap2 w' ! a)
           \<and> Interface_Get now (heap2 w' ! a) idx = Inr ((INil, False), heap2 w' ! a))"
proof (intro impI conjI)
  assume h: "make_len_ok sz \<and> 0 \<le> idx"
  then have sz: "0 \<le> sz" by (simp add: make_len_ok_def)
  from h sz show "let c = \<lparr>vals_B = replicate (nat sz) None, mem_B = 0,
               max_B = megabytes * 1048576, size_B = sz\<rparr>;
          a = length (heap1 w)
      in NewBytes w sz megabytes = Inr (a, w\<lparr>heap1 := heap1 w @ [c], caches1 := caches1 w @ [a]\<rparr>)
         \<and> length (vals_B c) = nat sz \<and> wf_B c
         \<and> Bytes_Get now c idx = Inr ((None, False), c)"
    by (simp add: Let_def NewBytes_def NewBytes_struct_def wf_B_def Bytes_Get_fresh)
  from h sz show "case New w sz megabytes of
         Inl e \<Rightarrow> False
       | Inr (a, w') \<Rightarrow>
           a = length (heap2 w)
           \<and> heap1 w' = heap1 w \<and> caches1 w' = caches1 w
           \<and> caches2 w' = caches2 w @ [a]
           \<and> heap2 w' = heap2 w @ [heap2 w' ! a]
           \<and> vals_I (heap2 w' ! a) = replicate (nat sz) None
           \<and> mem_I (heap2 w' ! a) = 0
           \<and> size_I (heap2 w' ! a) = sz
           \<and> wf_I (heap2 w' ! a)
           \<and> Interface_Get now (heap2 w' ! a) idx = Inr ((INil, False), heap2 w' ! a)"
    by (simp add: New_eq wf_I_def Interface_Get_fresh)
qed

text \<open>The theorem at size 2 and 1 megabyte, on the empty registry, with index 1.\<close>

theorem Construct_fresh_cache_witness:
  "make_len_ok 2 \<and> (0::int) \<le> 1
   \<and> NewBytes (empty_world :: nat world) 2 1
      = Inr (0, \<lparr>heap1 = [\<lparr>vals_B = [None, None], mem_B = 0, max_B = 1048576, size_B = 2\<rparr>],
                 heap2 = [], caches1 = [0], caches2 = []\<rparr>)
   \<and> Bytes_Get 100 \<lparr>vals_B = [None, None], mem_B = 0, max_B = 1048576, size_B = 2\<rparr> 1
      = Inr ((None, False), \<lparr>vals_B = [None, None], mem_B = 0, max_B = 1048576, size_B = 2\<rparr>)
   \<and> (case New (empty_world :: nat world) 2 1 of
         Inl e \<Rightarrow> False
       | Inr (a, w') \<Rightarrow>
           a = 0 \<and> caches2 w' = [0] \<and> heap2 w' = [heap2 w' ! a]
           \<and> vals_I (heap2 w' ! a) = [None, None]
           \<and> mem_I (heap2 w' ! a) = 0 \<and> size_I (heap2 w' ! a) = 2
           \<and> Interface_Get 100 (heap2 w' ! a) 1 = Inr ((INil, False), heap2 w' ! a))"
proof -
  note t = Construct_fresh_cache [where sz = 2 and idx = 1 and megabytes = 1 and now = 100
      and w = "empty_world :: nat world"]
  have ok: "make_len_ok 2" by (rule make_len_ok_small)
  from t ok have b: "NewBytes (empty_world :: nat world) 2 1
      = Inr (0, \<lparr>heap1 = [\<lparr>vals_B = [None, None], mem_B = 0, max_B = 1048576, size_B = 2\<rparr>],
                 heap2 = [], caches1 = [0], caches2 = []\<rparr>)
   \<and> Bytes_Get 100 \<lparr>vals_B = [None, None], mem_B = 0, max_B = 1048576, size_B = 2\<rparr> 1
      = Inr ((None, False), \<lparr>vals_B = [None, None], mem_B = 0, max_B = 1048576, size_B = 2\<rparr>)"
    by (simp add: Let_def empty_world_def replicate_two)
  from t ok have "case New (empty_world :: nat world) 2 1 of
         Inl e \<Rightarrow> False
       | Inr (a, w') \<Rightarrow>
           a = 0 \<and> caches2 w' = [0] \<and> heap2 w' = [heap2 w' ! a]
           \<and> vals_I (heap2 w' ! a) = [None, None]
           \<and> mem_I (heap2 w' ! a) = 0 \<and> size_I (heap2 w' ! a) = 2
           \<and> Interface_Get 100 (heap2 w' ! a) 1 = Inr ((INil, False), heap2 w' ! a)"
    by (cases "New (empty_world :: nat world) 2 1")
       (auto simp: empty_world_def replicate_two)
  with b ok show ?thesis by simp
qed

section \<open>The sweeper\<close>

text \<open>
  A threshold \<open>now - k\<close> that does not wrap separates the timestamps by idle time: an
  entry is below the threshold exactly when it has been idle for more than \<open>k\<close> seconds.
\<close>

lemma sint_minus_of_int:
  fixes now :: int64
  assumes "- (2 ^ 63) \<le> sint now - k" "sint now - k < 2 ^ 63"
  shows "sint (now - word_of_int k) = sint now - k"
proof -
  have "now - word_of_int k = word_of_int (sint now - k)" by simp
  then have "sint (now - word_of_int k) = signed_take_bit 63 (sint now - k)"
    by (simp only: sint_sbintrunc') simp
  with assms show ?thesis by (simp add: signed_take_bit_int_eq_self)
qed

lemma sless_threshold_iff:
  fixes now la :: int64
  assumes "- (2 ^ 63) \<le> sint now - k" "sint now - k < 2 ^ 63"
  shows "la <s now - word_of_int k \<longleftrightarrow> k < idle now la"
  using sint_minus_of_int [OF assms] by (auto simp: word_sless_alt idle_def)

lemma clock_thresholds:
  assumes "clock_ok now"
  shows "la <s now - 432000 \<longleftrightarrow> 432000 < idle now la"
    and "la <s now - 86400 \<longleftrightarrow> 86400 < idle now la"
    and "la <s now - 3600 \<longleftrightarrow> 3600 < idle now la"
    and "la <s now - 600 \<longleftrightarrow> 600 < idle now la"
    and "la <s now + 3600 \<longleftrightarrow> - 3600 < idle now la"
proof -
  from assms have r: "- (2 ^ 63) + 432000 \<le> sint now" "sint now + 3600 < 2 ^ 63"
    by (simp_all add: clock_ok_def)
  have lt: "sint now < 2 ^ 63" using sint_lt [of now] by simp
  show "la <s now - 432000 \<longleftrightarrow> 432000 < idle now la"
    using sless_threshold_iff [of now 432000 la] r lt by simp
  show "la <s now - 86400 \<longleftrightarrow> 86400 < idle now la"
    using sless_threshold_iff [of now 86400 la] r lt by simp
  show "la <s now - 3600 \<longleftrightarrow> 3600 < idle now la"
    using sless_threshold_iff [of now 3600 la] r lt by simp
  show "la <s now - 600 \<longleftrightarrow> 600 < idle now la"
    using sless_threshold_iff [of now 600 la] r lt by simp
  show "la <s now + 3600 \<longleftrightarrow> - 3600 < idle now la"
    using sless_threshold_iff [of now "- 3600" la] r lt by simp
qed

text \<open>
  So each purge of the sweeper is an eviction by idle time, and the body of the loop is
  the staged sweep with the strict comparison.
\<close>

lemma Bytes_Purge_as_evict:
  assumes "\<And>la. la <s t \<longleftrightarrow> old (idle now la)"
  shows "Bytes_Purge t c = spec_evict_B old now c"
proof -
  have s: "stale_B t = aged_B old now"
    by (rule ext) (simp add: stale_B_def aged_B_def assms split: option.split)
  have "purged_slot_B t = (\<lambda>slot. if aged_B old now slot then None else slot)"
    by (rule ext) (simp add: purged_slot_B_def s)
  with s show ?thesis by (simp add: Bytes_Purge_eq spec_evict_B_def)
qed

lemma Interface_Purge_as_evict:
  fixes c :: "'a Interface"
  assumes "\<And>la. la <s t \<longleftrightarrow> old (idle now la)"
  shows "Interface_Purge t c = spec_evict_I old now c"
proof -
  have s: "(stale_I t :: 'a entryInterface option \<Rightarrow> bool) = aged_I old now"
    by (rule ext) (simp add: stale_I_def aged_I_def assms split: option.split)
  have "(purged_slot_I t :: 'a entryInterface option \<Rightarrow> _)
          = (\<lambda>slot. if aged_I old now slot then None else slot)"
    by (rule ext) (simp add: purged_slot_I_def s)
  with s show ?thesis by (simp add: Interface_Purge_eq spec_evict_I_def)
qed

lemma not_over_budget: "(m \<le>s b) = (\<not> b <s m)" for m b :: int64
  by (simp add: word_sle_eq word_sless_alt not_less)

lemma cleaner_body_B_spec:
  assumes "\<forall>j<5. clock_ok (now j)"
  shows "cleaner_body_B now c = spec_sweep_B (<) now c"
proof -
  from assms have ok: "clock_ok (now 0)" "clock_ok (now 1)" "clock_ok (now 2)"
    "clock_ok (now 3)" "clock_ok (now 4)" by simp_all
  have p0: "\<And>c. Bytes_Purge (now 0 - 432000) c = spec_evict_B (\<lambda>a. 432000 < a) (now 0) c"
    by (rule Bytes_Purge_as_evict) (rule clock_thresholds [OF ok(1)])
  have p1: "\<And>c. Bytes_Purge (now 1 - 86400) c = spec_evict_B (\<lambda>a. 86400 < a) (now 1) c"
    by (rule Bytes_Purge_as_evict) (rule clock_thresholds [OF ok(2)])
  have p2: "\<And>c. Bytes_Purge (now 2 - 3600) c = spec_evict_B (\<lambda>a. 3600 < a) (now 2) c"
    by (rule Bytes_Purge_as_evict) (rule clock_thresholds [OF ok(3)])
  have p3: "\<And>c. Bytes_Purge (now 3 - 600) c = spec_evict_B (\<lambda>a. 600 < a) (now 3) c"
    by (rule Bytes_Purge_as_evict) (rule clock_thresholds [OF ok(4)])
  have p4: "\<And>c. Bytes_Purge (now 4 + 3600) c = spec_evict_B (\<lambda>a. - 3600 < a) (now 4) c"
    by (rule Bytes_Purge_as_evict) (rule clock_thresholds [OF ok(5)])
  show ?thesis
    unfolding cleaner_body_B_def spec_sweep_B_def p0 p1 p2 p3 p4
    by (simp add: Let_def not_over_budget)
qed

lemma cleaner_body_I_spec:
  assumes "\<forall>j<5. clock_ok (now j)"
  shows "cleaner_body_I now c = spec_sweep_I (<) now c"
proof -
  from assms have ok: "clock_ok (now 0)" "clock_ok (now 1)" "clock_ok (now 2)"
    "clock_ok (now 3)" "clock_ok (now 4)" by simp_all
  have p0: "\<And>c::'a Interface. Interface_Purge (now 0 - 432000) c = spec_evict_I (\<lambda>a. 432000 < a) (now 0) c"
    by (rule Interface_Purge_as_evict) (rule clock_thresholds [OF ok(1)])
  have p1: "\<And>c::'a Interface. Interface_Purge (now 1 - 86400) c = spec_evict_I (\<lambda>a. 86400 < a) (now 1) c"
    by (rule Interface_Purge_as_evict) (rule clock_thresholds [OF ok(2)])
  have p2: "\<And>c::'a Interface. Interface_Purge (now 2 - 3600) c = spec_evict_I (\<lambda>a. 3600 < a) (now 2) c"
    by (rule Interface_Purge_as_evict) (rule clock_thresholds [OF ok(3)])
  have p3: "\<And>c::'a Interface. Interface_Purge (now 3 - 600) c = spec_evict_I (\<lambda>a. 600 < a) (now 3) c"
    by (rule Interface_Purge_as_evict) (rule clock_thresholds [OF ok(4)])
  have p4: "\<And>c::'a Interface. Interface_Purge (now 4 + 3600) c = spec_evict_I (\<lambda>a. - 3600 < a) (now 4) c"
    by (rule Interface_Purge_as_evict) (rule clock_thresholds [OF ok(5)])
  show ?thesis
    unfolding cleaner_body_I_def spec_sweep_I_def p0 p1 p2 p3 p4
    by (simp add: Let_def not_over_budget)
qed

lemma cleaner_body_B_skip: "\<not> max_B c <s mem_B c \<Longrightarrow> cleaner_body_B now c = c"
  by (simp add: cleaner_body_B_def)

text \<open>
  The range loops: over a registry that lists every allocated cache in order, the loop
  replaces each cache by its swept state and never dereferences outside the store.
\<close>

lemma cleaner_range_B_from:
  "m \<le> length h \<Longrightarrow>
   cleaner_range_B clock m [m..<length h] h =
     Inr (take m h @ map (\<lambda>(k, c). cleaner_body_B (clock k) c) (zip [m..<length h] (drop m h)))"
proof (induction "length h - m" arbitrary: m h)
  case 0
  then show ?case by simp
next
  case (Suc n)
  then have m: "m < length h" by simp
  let ?h = "h[m := cleaner_body_B (clock m) (h ! m)]"
  have len: "length ?h = length h" by simp
  have "n = length ?h - Suc m" using Suc.hyps(2) by simp
  from Suc.hyps(1) [OF this] m
  have ih: "cleaner_range_B clock (Suc m) [Suc m..<length h] ?h =
     Inr (take (Suc m) ?h @ map (\<lambda>(k, c). cleaner_body_B (clock k) c) (zip [Suc m..<length h] (drop (Suc m) ?h)))"
    by simp
  have t: "take (Suc m) ?h = take m h @ [cleaner_body_B (clock m) (h ! m)]"
    using m by (simp add: take_Suc_conv_app_nth)
  have d: "drop m h = h ! m # drop (Suc m) h" using m by (simp add: Cons_nth_drop_Suc)
  have u: "[m..<length h] = m # [Suc m..<length h]" using m by (simp add: upt_conv_Cons)
  show ?case
    using m ih by (simp add: u d t deref_def)
qed

lemma cleaner_range_B_all:
  "cleaner_range_B clock 0 [0..<length h] h =
     Inr (map (\<lambda>(k, c). cleaner_body_B (clock k) c) (zip [0..<length h] h))"
  using cleaner_range_B_from [of 0 h clock] by simp

lemma cleaner_range_I_from:
  "m \<le> length h \<Longrightarrow>
   cleaner_range_I clock m [m..<length h] h =
     Inr (take m h @ map (\<lambda>(k, c). cleaner_body_I (clock k) c) (zip [m..<length h] (drop m h)))"
proof (induction "length h - m" arbitrary: m h)
  case 0
  then show ?case by simp
next
  case (Suc n)
  then have m: "m < length h" by simp
  let ?h = "h[m := cleaner_body_I (clock m) (h ! m)]"
  have "n = length ?h - Suc m" using Suc.hyps(2) by simp
  from Suc.hyps(1) [OF this] m
  have ih: "cleaner_range_I clock (Suc m) [Suc m..<length h] ?h =
     Inr (take (Suc m) ?h @ map (\<lambda>(k, c). cleaner_body_I (clock k) c) (zip [Suc m..<length h] (drop (Suc m) ?h)))"
    by simp
  have t: "take (Suc m) ?h = take m h @ [cleaner_body_I (clock m) (h ! m)]"
    using m by (simp add: take_Suc_conv_app_nth)
  have d: "drop m h = h ! m # drop (Suc m) h" using m by (simp add: Cons_nth_drop_Suc)
  have u: "[m..<length h] = m # [Suc m..<length h]" using m by (simp add: upt_conv_Cons)
  show ?case
    using m ih by (simp add: u d t deref_def)
qed

lemma cleaner_range_I_all:
  "cleaner_range_I clock 0 [0..<length h] h =
     Inr (map (\<lambda>(k, c). cleaner_body_I (clock k) c) (zip [0..<length h] h))"
  using cleaner_range_I_from [of 0 h clock] by simp

lemma cleaner_tick_eq:
  "wf_world w \<Longrightarrow>
   cleaner_tick clock1 clock2 w =
     Inr (w\<lparr>heap1 := map (\<lambda>(k, c). cleaner_body_B (clock1 k) c) (zip [0..<length (heap1 w)] (heap1 w)),
            heap2 := map (\<lambda>(k, c). cleaner_body_I (clock2 k) c) (zip [0..<length (heap2 w)] (heap2 w))\<rparr>)"
  by (simp add: cleaner_tick_def wf_world_def cleaner_range_B_all cleaner_range_I_all)

lemma wf_world_empty: "wf_world empty_world"
  by (simp add: wf_world_def empty_world_def)

lemma wf_world_NewBytes: "wf_world w \<Longrightarrow> NewBytes w sz megabytes = Inr (a, w') \<Longrightarrow> wf_world w'"
  by (auto simp: wf_world_def NewBytes_def Let_def split: sum.splits)

lemma wf_world_New: "wf_world w \<Longrightarrow> New w sz megabytes = Inr (a, w') \<Longrightarrow> wf_world w'"
  by (auto simp: wf_world_def New_def Let_def split: sum.splits)

lemma wf_world_tick:
  "wf_world w \<Longrightarrow> cleaner_tick clock1 clock2 w = Inr w' \<Longrightarrow> wf_world w'"
  by (auto simp: cleaner_tick_eq wf_world_def)

lemma steady_clock_reads [simp]:
  "steady_clock t j = t" "steady_clocks t k = steady_clock t"
  by (simp_all add: steady_clock_def steady_clocks_def)

lemma clock_ok_example: "clock_ok 1700000000"
  by (simp add: clock_ok_def)

lemma sweep_ex_B_result:
  "cleaner_body_B (steady_clock 1700000000) sweep_ex_B = \<lparr>vals_B = [None, None], mem_B = 0, max_B = 0, size_B = 2\<rparr>"
  by (simp add: cleaner_body_B_def sweep_ex_B_def Bytes_Purge_def len64_def len_bytes_def Let_def
        word_sless_alt)

text \<open>The older file's purge and sweeper, by the same steps.\<close>

lemma legacy_Purge_loop_vals:
  "drop i (vals_L c) = xs \<Longrightarrow>
   vals_L (legacy_Purge_loop t i xs c) = take i (vals_L c) @ map (purged_slot_B t) xs"
proof (induction t i xs c rule: legacy_Purge_loop.induct)
  case (1 t i c)
  then show ?case by simp
next
  case (2 t i rest c)
  from drop_Cons_split [OF "2.prems"] "2.IH" show ?case
    by (simp add: purged_slot_B_def stale_B_def)
next
  case (3 t i item rest c)
  note d = drop_Cons_split [OF "3.prems"]
  show ?case
  proof (cases "lastAccess_B item <s t")
    case True
    let ?c = "c\<lparr>mem_L := mem_L c + (0 - len64 (data_B item)), vals_L := (vals_L c)[i := None]\<rparr>"
    have "drop (Suc i) (vals_L ?c) = rest" using d by simp
    from this have "vals_L (legacy_Purge_loop t (Suc i) rest ?c)
        = take (Suc i) (vals_L ?c) @ map (purged_slot_B t) rest"
      using "3.IH" True by simp
    moreover have "take (Suc i) (vals_L ?c) = take i (vals_L c) @ [None]"
      using d by (simp add: take_Suc_conv_app_nth)
    ultimately show ?thesis using True by (simp add: purged_slot_B_def stale_B_def)
  next
    case False
    with d "3.IH" show ?thesis by (simp add: purged_slot_B_def stale_B_def)
  qed
qed

lemma legacy_Purge_loop_mem:
  "mem_L (legacy_Purge_loop t i xs c) = mem_L c - sum_list (map slot_size_B (filter (stale_B t) xs))"
  by (induction t i xs c rule: legacy_Purge_loop.induct)
     (simp_all add: stale_B_def slot_size_B_def)

lemma legacy_Purge_loop_frame:
  "max_L (legacy_Purge_loop t i xs c) = max_L c"
  by (induction t i xs c rule: legacy_Purge_loop.induct) simp_all

lemma legacy_Purge_eq:
  "legacy_Purge t c =
     c\<lparr>vals_L := map (purged_slot_B t) (vals_L c),
       mem_L := mem_L c - sum_list (map slot_size_B (filter (stale_B t) (vals_L c)))\<rparr>"
  by (rule cache.equality)
     (simp_all add: legacy_Purge_def legacy_Purge_loop_vals legacy_Purge_loop_mem legacy_Purge_loop_frame)

lemma legacy_Purge_as_evict:
  assumes "\<And>la. la <s t \<longleftrightarrow> old (idle now la)"
  shows "legacy_Purge t c = spec_evict_L old now c"
proof -
  have s: "stale_B t = aged_B old now"
    by (rule ext) (simp add: stale_B_def aged_B_def assms split: option.split)
  have "purged_slot_B t = (\<lambda>slot. if aged_B old now slot then None else slot)"
    by (rule ext) (simp add: purged_slot_B_def s)
  with s show ?thesis by (simp add: legacy_Purge_eq spec_evict_L_def)
qed

lemma legacy_cleaner_body_spec:
  assumes "\<forall>j<4. clock_ok (now j)"
  shows "legacy_cleaner_body now c =
     spec_stages_L [((\<lambda>a. 86400 < a), now 0), ((\<lambda>a. 3600 < a), now 1),
                    ((\<lambda>a. 600 < a), now 2), ((\<lambda>a. - 3600 < a), now 3)] c"
proof -
  from assms have ok: "clock_ok (now 0)" "clock_ok (now 1)" "clock_ok (now 2)" "clock_ok (now 3)"
    by simp_all
  have p0: "\<And>c. legacy_Purge (now 0 - 86400) c = spec_evict_L (\<lambda>a. 86400 < a) (now 0) c"
    by (rule legacy_Purge_as_evict) (rule clock_thresholds [OF ok(1)])
  have p1: "\<And>c. legacy_Purge (now 1 - 3600) c = spec_evict_L (\<lambda>a. 3600 < a) (now 1) c"
    by (rule legacy_Purge_as_evict) (rule clock_thresholds [OF ok(2)])
  have p2: "\<And>c. legacy_Purge (now 2 - 600) c = spec_evict_L (\<lambda>a. 600 < a) (now 2) c"
    by (rule legacy_Purge_as_evict) (rule clock_thresholds [OF ok(3)])
  have p3: "\<And>c. legacy_Purge (now 3 + 3600) c = spec_evict_L (\<lambda>a. - 3600 < a) (now 3) c"
    by (rule legacy_Purge_as_evict) (rule clock_thresholds [OF ok(4)])
  show ?thesis
    unfolding legacy_cleaner_body_def p0 p1 p2 p3
    by (simp add: Let_def not_over_budget)
qed

text \<open>
  On the older example the first stage is the one-day stage: it removes both entries,
  also the one idle for 100000 seconds, which a five-day stage would have left.
\<close>

lemma legacy_sweep_starts_at_one_day:
  "legacy_cleaner_body (steady_clock 1700000000) legacy_ex = \<lparr>vals_L = [None, None], mem_L = 0, max_L = 0\<rparr>"
  by (simp add: legacy_cleaner_body_def legacy_ex_def legacy_Purge_def len64_def len_bytes_def
      Let_def word_sless_alt)

text \<open>
  C7, the claim as written fails. At time 1700000000 the typed-value example is over
  budget (1200 against 1024); the sweep removes the entry idle for 432001 seconds, which
  brings the counter to 600, and stops. The entry in slot 1 has been idle for exactly
  432000 seconds, that is five days, and is still there: a first stage that took entries
  idle at least five days would have removed it too.
\<close>

theorem idle_exactly_five_days_survives:
  "cleaner_body_I (steady_clock 1700000000) sweep_ex_I
     = \<lparr>vals_I = [None, Some \<lparr>lastAccess_I = 1699568000, data_I = IValue 2, entry_size_I = 600\<rparr>],
        mem_I = 600, max_I = 1024, size_I = 2\<rparr>
   \<and> idle 1700000000 1699568000 = 432000
   \<and> spec_sweep_I (\<le>) (steady_clock 1700000000) sweep_ex_I
     = \<lparr>vals_I = [None, None], mem_I = 0, max_I = 1024, size_I = 2\<rparr>"
proof (intro conjI)
  show "cleaner_body_I (steady_clock 1700000000) sweep_ex_I
     = \<lparr>vals_I = [None, Some \<lparr>lastAccess_I = 1699568000, data_I = IValue 2, entry_size_I = 600\<rparr>],
        mem_I = 600, max_I = 1024, size_I = 2\<rparr>"
    by (simp add: cleaner_body_I_def sweep_ex_I_def Interface_Purge_def Let_def)
  show "idle 1700000000 1699568000 = 432000"
    by (simp add: idle_def)
  show "spec_sweep_I (\<le>) (steady_clock 1700000000) sweep_ex_I
     = \<lparr>vals_I = [None, None], mem_I = 0, max_I = 1024, size_I = 2\<rparr>"
    by (simp add: spec_sweep_I_def spec_evict_I_def aged_I_def idle_def slot_size_I_def sweep_ex_I_def)
qed

text \<open>
  C7, amended. On a tick whose clock readings keep the thresholds inside \<^verbatim>\<open>int64\<close>,
  every cache of the registry is replaced by its staged sweep: a cache with
  \<open>mem \<le> max\<close> is left as it is; otherwise the stages evict the entries idle for more
  than 432000, 86400, 3600 and 600 seconds (strictly: at exactly five days an entry stays)
  and finally every entry last accessed before one hour after the reading, each stage
  running only if \<open>mem > max\<close> still holds after the one before. The sweeper of the
  older file does the same for one cache without the five-day stage.
\<close>

theorem tick_sweeps_by_stages:
  "(wf_world w \<and> (\<forall>k. \<forall>j<5. clock_ok (clock1 k j)) \<and> (\<forall>k. \<forall>j<5. clock_ok (clock2 k j)) \<longrightarrow>
     cleaner_tick clock1 clock2 w =
       Inr (w\<lparr>heap1 := map (\<lambda>(k, c). spec_sweep_B (<) (clock1 k) c)
                         (zip [0..<length (heap1 w)] (heap1 w)),
              heap2 := map (\<lambda>(k, c). spec_sweep_I (<) (clock2 k) c)
                         (zip [0..<length (heap2 w)] (heap2 w))\<rparr>))
   \<and> ((\<forall>j<4. clock_ok (now j)) \<longrightarrow>
     legacy_cleaner_body now l =
       spec_stages_L [((\<lambda>a. 86400 < a), now 0), ((\<lambda>a. 3600 < a), now 1),
                      ((\<lambda>a. 600 < a), now 2), ((\<lambda>a. - 3600 < a), now 3)] l)"
proof (intro conjI impI)
  assume h: "wf_world w \<and> (\<forall>k. \<forall>j<5. clock_ok (clock1 k j)) \<and> (\<forall>k. \<forall>j<5. clock_ok (clock2 k j))"
  then have b: "\<And>k c. cleaner_body_B (clock1 k) c = spec_sweep_B (<) (clock1 k) c"
    by (simp add: cleaner_body_B_spec)
  from h have i: "\<And>k (c :: 'a Interface). cleaner_body_I (clock2 k) c = spec_sweep_I (<) (clock2 k) c"
    by (simp add: cleaner_body_I_spec)
  from h show "cleaner_tick clock1 clock2 w =
     Inr (w\<lparr>heap1 := map (\<lambda>(k, c). spec_sweep_B (<) (clock1 k) c)
                       (zip [0..<length (heap1 w)] (heap1 w)),
            heap2 := map (\<lambda>(k, c). spec_sweep_I (<) (clock2 k) c)
                       (zip [0..<length (heap2 w)] (heap2 w))\<rparr>)"
    by (simp add: cleaner_tick_eq b i)
next
  assume "\<forall>j<4. clock_ok (now j)"
  then show "legacy_cleaner_body now l =
       spec_stages_L [((\<lambda>a. 86400 < a), now 0), ((\<lambda>a. 3600 < a), now 1),
                      ((\<lambda>a. 600 < a), now 2), ((\<lambda>a. - 3600 < a), now 3)] l"
    by (rule legacy_cleaner_body_spec)
qed

text \<open>
  The theorem on the example registry at time 1700000000: the over-budget byte cache runs
  through all five stages and ends empty, the byte cache under budget is skipped, and the
  typed-value cache stops after the first stage. The older example stops after its first
  stage, the one-day stage.
\<close>

theorem tick_sweeps_by_stages_witness:
  "wf_world sweep_world \<and> clock_ok 1700000000
   \<and> cleaner_tick (steady_clocks 1700000000) (steady_clocks 1700000000) sweep_world
     = Inr \<lparr>heap1 = [\<lparr>vals_B = [None, None], mem_B = 0, max_B = 0, size_B = 2\<rparr>, ex_B],
            heap2 = [\<lparr>vals_I = [None, Some \<lparr>lastAccess_I = 1699568000, data_I = IValue 2,
                                            entry_size_I = 600\<rparr>],
                      mem_I = 600, max_I = 1024, size_I = 2\<rparr>],
            caches1 = [0, 1], caches2 = [0]\<rparr>
   \<and> legacy_cleaner_body (steady_clock 1700000000) legacy_ex
     = \<lparr>vals_L = [None, None], mem_L = 0, max_L = 0\<rparr>"
proof -
  have w: "wf_world sweep_world" by (simp add: wf_world_def sweep_world_def)
  have c: "clock_ok 1700000000" by (simp add: clock_ok_def)
  have b0: "spec_sweep_B (<) (steady_clock 1700000000) sweep_ex_B
      = \<lparr>vals_B = [None, None], mem_B = 0, max_B = 0, size_B = 2\<rparr>"
    by (simp add: spec_sweep_B_def spec_evict_B_def aged_B_def idle_def slot_size_B_def
        sweep_ex_B_def len64_def len_bytes_def word_sle_eq)
  have b1: "spec_sweep_B (<) (steady_clock 1700000000) ex_B = ex_B"
    by (simp add: spec_sweep_B_def ex_B_def word_sle_eq)
  have i0: "spec_sweep_I (<) (steady_clock 1700000000) sweep_ex_I
      = \<lparr>vals_I = [None, Some \<lparr>lastAccess_I = 1699568000, data_I = IValue 2, entry_size_I = 600\<rparr>],
                      mem_I = 600, max_I = 1024, size_I = 2\<rparr>"
    by (simp add: spec_sweep_I_def spec_evict_I_def aged_I_def idle_def slot_size_I_def sweep_ex_I_def)
  have l0: "spec_stages_L [((\<lambda>a. 86400 < a), 1700000000), ((\<lambda>a. 3600 < a), 1700000000),
                      ((\<lambda>a. 600 < a), 1700000000), ((\<lambda>a. - 3600 < a), 1700000000)] legacy_ex
      = \<lparr>vals_L = [None, None], mem_L = 0, max_L = 0\<rparr>"
    by (simp add: spec_evict_L_def aged_B_def idle_def slot_size_B_def legacy_ex_def
        len64_def len_bytes_def word_sle_eq)
  have u: "[0..<2] = [0, 1]" by (simp add: upt_conv_Cons)
  note t = tick_sweeps_by_stages [of sweep_world "steady_clocks 1700000000" "steady_clocks 1700000000"
      "steady_clock 1700000000" legacy_ex]
  from t w c
  have "cleaner_tick (steady_clocks 1700000000) (steady_clocks 1700000000) sweep_world
     = Inr (sweep_world\<lparr>heap1 := map (\<lambda>(k, c). spec_sweep_B (<) (steady_clock 1700000000) c)
                       (zip [0..<length (heap1 sweep_world)] (heap1 sweep_world)),
            heap2 := map (\<lambda>(k, c). spec_sweep_I (<) (steady_clock 1700000000) c)
                       (zip [0..<length (heap2 sweep_world)] (heap2 sweep_world))\<rparr>)"
    by simp
  also have "\<dots> = Inr \<lparr>heap1 = [\<lparr>vals_B = [None, None], mem_B = 0, max_B = 0, size_B = 2\<rparr>, ex_B],
            heap2 = [\<lparr>vals_I = [None, Some \<lparr>lastAccess_I = 1699568000, data_I = IValue 2,
                                            entry_size_I = 600\<rparr>],
                      mem_I = 600, max_I = 1024, size_I = 2\<rparr>],
            caches1 = [0, 1], caches2 = [0]\<rparr>"
    by (simp add: sweep_world_def u b0 b1 i0)
  finally have tick: "cleaner_tick (steady_clocks 1700000000) (steady_clocks 1700000000) sweep_world
     = Inr \<lparr>heap1 = [\<lparr>vals_B = [None, None], mem_B = 0, max_B = 0, size_B = 2\<rparr>, ex_B],
            heap2 = [\<lparr>vals_I = [None, Some \<lparr>lastAccess_I = 1699568000, data_I = IValue 2,
                                            entry_size_I = 600\<rparr>],
                      mem_I = 600, max_I = 1024, size_I = 2\<rparr>],
            caches1 = [0, 1], caches2 = [0]\<rparr>" .
  from t c have "legacy_cleaner_body (steady_clock 1700000000) legacy_ex
     = spec_stages_L [((\<lambda>a. 86400 < a), 1700000000), ((\<lambda>a. 3600 < a), 1700000000),
                      ((\<lambda>a. 600 < a), 1700000000), ((\<lambda>a. - 3600 < a), 1700000000)] legacy_ex"
    by (simp del: spec_stages_L.simps)
  then have "legacy_cleaner_body (steady_clock 1700000000) legacy_ex
     = \<lparr>vals_L = [None, None], mem_L = 0, max_L = 0\<rparr>"
    by (simp only: l0)
  with tick w c show ?thesis by simp
qed

section \<open>The counter invariant\<close>

text \<open>
  The counter equals the sum of the live entries' sizes after construction, and
  \<^verbatim>\<open>Store\<close>, \<^verbatim>\<open>Replace\<close> and \<^verbatim>\<open>Purge\<close> of the byte cache keep it so. A run on
  in-range indices never panics.
\<close>

lemma live_size_B_update:
  "i < length vs \<Longrightarrow>
   live_size_B (vs[i := s]) = live_size_B vs - slot_size_B (vs ! i) + slot_size_B s"
proof (induction vs arbitrary: i)
  case Nil
  then show ?case by simp
next
  case (Cons v vs)
  then show ?case by (cases i) (simp_all add: live_size_B_def)
qed

lemma live_size_B_purged:
  "live_size_B (map (purged_slot_B t) vs)
     = live_size_B vs - sum_list (map slot_size_B (filter (stale_B t) vs))"
  by (induction vs) (simp_all add: live_size_B_def purged_slot_B_def slot_size_B_def)

lemma live_size_B_empty: "live_size_B (replicate n None) = 0"
  by (induction n) (simp_all add: live_size_B_def slot_size_B_def)

lemma counter_ok_NewBytes: "NewBytes_struct sz megabytes = Inr c \<Longrightarrow> counter_ok_B c"
  by (auto simp: NewBytes_struct_def counter_ok_B_def live_size_B_empty split: if_splits)

lemma wf_B_Purge: "wf_B (Bytes_Purge t c) = wf_B c"
  by (simp add: wf_B_def Bytes_Purge_eq)

lemma counter_ok_Purge: "counter_ok_B c \<Longrightarrow> counter_ok_B (Bytes_Purge t c)"
  by (simp add: counter_ok_B_def Bytes_Purge_eq live_size_B_purged)

lemma counter_ok_Store:
  assumes ok: "counter_ok_B c" and s: "Bytes_Store now c idx p = Inr c'"
  shows "counter_ok_B c'"
proof (cases "idx \<ge> size_B c")
  case True
  with s ok show ?thesis by (simp add: Bytes_Store_def)
next
  case below: False
  show ?thesis
  proof (cases "in_bounds (vals_B c) idx")
    case False
    with s below show ?thesis by (simp add: Bytes_Store_def index_def)
  next
    case b: True
    then have n: "nat idx < length (vals_B c)" by (rule in_bounds_nat)
    show ?thesis
    proof (cases "vals_B c ! nat idx")
      case None
      with s below b have "c' = c\<lparr>vals_B := (vals_B c)[nat idx := Some \<lparr>lastAccess_B = now, data_B = p\<rparr>],
                      mem_B := mem_B c + len64 p\<rparr>"
        by (simp add: Bytes_Store_def index_def)
      with ok n None show ?thesis
        by (simp add: counter_ok_B_def live_size_B_update slot_size_B_def)
    next
      case (Some item)
      with s below b ok show ?thesis by (simp add: Bytes_Store_def index_def)
    qed
  qed
qed

lemma counter_ok_Replace:
  assumes ok: "counter_ok_B c" and s: "Bytes_Replace tim c idx p = Inr c'"
  shows "counter_ok_B c'"
proof (cases "idx \<ge> size_B c")
  case True
  with s ok show ?thesis by (simp add: Bytes_Replace_def)
next
  case below: False
  show ?thesis
  proof (cases "in_bounds (vals_B c) idx")
    case False
    with s below show ?thesis by (simp add: Bytes_Replace_def index_def)
  next
    case b: True
    then have n: "nat idx < length (vals_B c)" by (rule in_bounds_nat)
    show ?thesis
    proof (cases "vals_B c ! nat idx")
      case None
      with s below b have "c' = c\<lparr>vals_B := (vals_B c)[nat idx := Some \<lparr>lastAccess_B = tim, data_B = p\<rparr>],
                      mem_B := mem_B c + len64 p\<rparr>"
        by (simp add: Bytes_Replace_def index_def)
      with ok n None show ?thesis
        by (simp add: counter_ok_B_def live_size_B_update slot_size_B_def)
    next
      case (Some item)
      with s below b have "c' = c\<lparr>vals_B := (vals_B c)[nat idx := Some (item\<lparr>data_B := p, lastAccess_B := tim\<rparr>)],
                         mem_B := mem_B c + (len64 p - len64 (data_B item))\<rparr>"
        by (simp add: Bytes_Replace_def index_def Let_def len64_def)
      with ok n Some show ?thesis
        by (simp add: counter_ok_B_def live_size_B_update slot_size_B_def)
    qed
  qed
qed

lemma counter_ok_run_without_Remove:
  "counter_ok_B c \<Longrightarrow> \<not> has_Remove ops \<Longrightarrow> run_B c ops = Inr c' \<Longrightarrow> counter_ok_B c'"
proof (induction ops arbitrary: c)
  case Nil
  then show ?case by simp
next
  case (Cons x ops)
  from Cons.prems(3) obtain c1 where s: "apply_B c x = Inr c1" and r: "run_B c1 ops = Inr c'"
    by (cases "apply_B c x") simp_all
  from Cons.prems(2) have nr: "\<not> has_Remove ops" by (cases x) simp_all
  have "counter_ok_B c1"
  proof (cases x)
    case (Store_B now idx p)
    with s have "Bytes_Store now c idx p = Inr c1" by simp
    with Cons.prems(1) show ?thesis by (rule counter_ok_Store)
  next
    case (Replace_B tim idx p)
    with s have "Bytes_Replace tim c idx p = Inr c1" by simp
    with Cons.prems(1) show ?thesis by (rule counter_ok_Replace)
  next
    case (Remove_B idx)
    with Cons.prems(2) show ?thesis by simp
  next
    case (Purge_B t)
    with s have "c1 = Bytes_Purge t c" by simp
    with Cons.prems(1) show ?thesis by (simp only: counter_ok_Purge)
  qed
  from Cons.IH [OF this nr r] show ?case .
qed

lemma apply_B_total:
  assumes "wf_B c" "in_range_B c x"
  shows "\<exists>c'. apply_B c x = Inr c' \<and> wf_B c' \<and> size_B c' = size_B c"
proof (cases x)
  case (Store_B now idx p)
  with assms have "in_bounds (vals_B c) idx" by (simp add: in_bounds_def wf_B_def)
  with assms Store_B show ?thesis
    by (cases "vals_B c ! nat idx") (simp_all add: Bytes_Store_def index_def wf_B_def)
next
  case (Replace_B tim idx p)
  with assms have "in_bounds (vals_B c) idx" by (simp add: in_bounds_def wf_B_def)
  with assms Replace_B show ?thesis
    by (cases "vals_B c ! nat idx") (simp_all add: Bytes_Replace_def index_def wf_B_def Let_def)
next
  case (Remove_B idx)
  with assms have "in_bounds (vals_B c) idx" by (simp add: in_bounds_def wf_B_def)
  with assms Remove_B show ?thesis
    by (simp add: Bytes_Remove_def wf_B_def)
next
  case (Purge_B t)
  have "size_B (Bytes_Purge t c) = size_B c" by (simp add: Bytes_Purge_eq)
  with assms Purge_B show ?thesis by (simp add: wf_B_Purge)
qed

lemma in_range_B_size: "size_B c' = size_B c \<Longrightarrow> in_range_B c' x = in_range_B c x"
  by (cases x) simp_all

lemma run_B_total:
  "wf_B c \<Longrightarrow> \<forall>x \<in> set ops. in_range_B c x \<Longrightarrow>
   \<exists>c'. run_B c ops = Inr c' \<and> wf_B c' \<and> size_B c' = size_B c"
proof (induction ops arbitrary: c)
  case Nil
  then show ?case by simp
next
  case (Cons x ops)
  from Cons.prems obtain c1 where s: "apply_B c x = Inr c1" "wf_B c1" "size_B c1 = size_B c"
    using apply_B_total [of c x] by auto
  from Cons.prems(2) have "\<forall>y \<in> set ops. in_range_B c1 y"
    using in_range_B_size [OF s(3)] by simp
  from Cons.IH [OF s(2) this] s show ?case by simp
qed

text \<open>
  In the typed-value cache \<^verbatim>\<open>Replace\<close> on an occupied slot keeps the entry's first
  declared size: after replacing the size-8 entry of the example by one declared 20, the
  counter is 20 but the entry still says 8, and purging it leaves the counter at 12 with
  no entry left.
\<close>

lemma Interface_Replace_keeps_first_size:
  "Interface_Replace 70 ex_I 1 (Some [1]) 20
     = Inr \<lparr>vals_I = [None, Some \<lparr>lastAccess_I = 70, data_I = IBytes (Some [1]), entry_size_I = 8\<rparr>],
            mem_I = 20, max_I = 1024, size_I = 2\<rparr>
   \<and> Interface_Purge 100 \<lparr>vals_I = [None, Some \<lparr>lastAccess_I = 70, data_I = IBytes (Some [1]),
                                              entry_size_I = 8\<rparr>],
            mem_I = 20, max_I = 1024, size_I = 2\<rparr>
     = \<lparr>vals_I = [None, None], mem_I = 12, max_I = 1024, size_I = 2\<rparr>"
  by (simp add: Interface_Replace_def Interface_Purge_def index_def in_bounds_def ex_I_def Let_def)

text \<open>
  C8, the code at the failing input. On \<^verbatim>\<open>NewBytes(1, 0)\<close>, \<^verbatim>\<open>Store(0, 3 bytes)\<close>
  followed by \<^verbatim>\<open>Remove(0)\<close> leaves no live entry and the counter at 3.
\<close>

theorem Remove_breaks_counter:
  "NewBytes_struct 1 0 = Inr \<lparr>vals_B = [None], mem_B = 0, max_B = 0, size_B = 1\<rparr>
   \<and> run_B \<lparr>vals_B = [None], mem_B = 0, max_B = 0, size_B = 1\<rparr>
        [Store_B 50 0 (Some [1, 2, 3]), Remove_B 0]
      = Inr \<lparr>vals_B = [None], mem_B = 3, max_B = 0, size_B = 1\<rparr>
   \<and> live_size_B [None] = 0
   \<and> \<not> counter_ok_B \<lparr>vals_B = [None], mem_B = 3, max_B = 0, size_B = 1\<rparr>"
  by (simp add: NewBytes_struct_def make_len_ok_def maxAlloc_def ptrSize_def
      Bytes_Store_def Bytes_Remove_def index_def in_bounds_def
      len64_def len_bytes_def live_size_B_def slot_size_B_def counter_ok_B_def)

end
